theory Spec2Isabelle
  imports Complex_Main
begin

section \<open>JavaScript values used by the page script\<close>

text \<open>
  A JavaScript string is a sequence of UTF-16 code units; a code unit is modelled by its
  number. The fixed texts the script writes (labels, messages) are ASCII and are kept as
  HOL strings; \<open>js\<close> turns such a text into its code units.
\<close>

type_synonym js_string = "nat list"

definition js :: "string \<Rightarrow> js_string" where
  "js s = map of_char s"

text \<open>
  The characters matched by \<open>\s\<close> in a regular expression and stripped by
  \<open>String.prototype.trim\<close>: ECMAScript WhiteSpace and LineTerminator.
\<close>

definition is_js_space :: "nat \<Rightarrow> bool" where
  "is_js_space c \<longleftrightarrow>
     c \<in> set [9, 10, 11, 12, 13, 32, 160, 5760, 8232, 8233, 8239, 8287, 12288, 65279]
     \<or> (8192 \<le> c \<and> c \<le> 8202)"

text \<open>Errors a handler can throw.\<close>

datatype js_error = TypeError | SyntaxError | OtherError string

text \<open>
  How a call ends: it returns, it throws (the state keeps what was written before the
  throw), or, for an \<open>async\<close> function, it is suspended at its \<open>await\<close> with the
  values its continuation needs.
\<close>

datatype 's outcome = Returned 's | Thrown js_error 's

text \<open>
  An error thrown by an event handler or a timer callback is reported by the browser and
  goes no further: the page goes on from the state the handler left.
\<close>

definition state_of :: "'s outcome \<Rightarrow> 's" where
  "state_of r = (case r of Returned s \<Rightarrow> s | Thrown _ s \<Rightarrow> s)"

datatype ('k, 's) async_outcome = Settled "'s outcome" | Awaits 'k 's

text \<open>
  An attribute of an element: absent, or its string value. \<open>setAttribute\<close> with a
  boolean stores the text \<open>true\<close> or \<open>false\<close>.
\<close>

type_synonym attr = "js_string option"

definition bool_attr :: "bool \<Rightarrow> attr" where
  "bool_attr b = Some (if b then js ''true'' else js ''false'')"

text \<open>
  The callbacks the script hands to \<open>setTimeout\<close>, by what they do. A page keeps the
  callbacks it has scheduled, each with its delay in milliseconds.
\<close>

datatype task =
    ClearAnnouncement
  | RemoveClass nat string
  | FocusTarget js_string
  | HideModal
  | SubmitEmailSettles js_string
  | AfterSubscribed js_string
  | SubmitContactSettles
  | AfterMessageSent js_string
  | RestoreLabel js_string

record page =
  announcements :: "js_string option"
  timers :: "(nat \<times> task) list"

section \<open>utils\<close>

subsection \<open>isValidEmail\<close>

text \<open>
  The regular expressions of the script are anchored sequences of character classes, each
  taken once or with \<open>+\<close>. \<open>rx_match\<close> is the backtracking matcher for them:
  \<open>/^...$/.test(s)\<close> without flags is a match of the whole string.
\<close>

datatype rx_item = One "nat \<Rightarrow> bool" | OneOrMore "nat \<Rightarrow> bool"

fun rx_match :: "rx_item list \<Rightarrow> js_string \<Rightarrow> bool" where
  "rx_match [] s = (s = [])"
| "rx_match (One p # r) [] = False"
| "rx_match (One p # r) (c # s) = (p c \<and> rx_match r s)"
| "rx_match (OneOrMore p # r) [] = False"
| "rx_match (OneOrMore p # r) (c # s) = (p c \<and> (rx_match (OneOrMore p # r) s \<or> rx_match r s))"

text \<open>The class \<open>[^\s@]\<close>, and the literals \<open>@\<close> (64) and \<open>\.\<close> (46).\<close>

definition not_space_at :: "nat \<Rightarrow> bool" where
  "not_space_at c \<longleftrightarrow> \<not> is_js_space c \<and> c \<noteq> 64"

definition emailRegex :: "rx_item list" where
  "emailRegex =
     [OneOrMore not_space_at, One (\<lambda>c. c = 64), OneOrMore not_space_at,
      One (\<lambda>c. c = 46), OneOrMore not_space_at]"

definition isValidEmail :: "js_string \<Rightarrow> bool" where
  "isValidEmail email = rx_match emailRegex email"

subsection \<open>debounce\<close>

text \<open>
  The closure of one \<open>debounce(func, wait)\<close>: its variable \<open>timeout\<close> (a timer handle, or
  undefined), the timers it has pending with the browser (handle, time due, arguments the
  pending \<open>later\<close> was created with), the next free handle, and the calls of \<open>func\<close> made
  so far (time, arguments). Time is in milliseconds.
\<close>

record 'a debounced =
  timeout :: "nat option"
  d_pending :: "(nat \<times> nat \<times> 'a) list"
  d_next :: nat
  func_calls :: "(nat \<times> 'a) list"

definition debounce :: "'a debounced" where
  "debounce = \<lparr>timeout = None, d_pending = [], d_next = 1, func_calls = []\<rparr>"

definition clearTimeout :: "nat option \<Rightarrow> (nat \<times> nat \<times> 'a) list \<Rightarrow> (nat \<times> nat \<times> 'a) list" where
  "clearTimeout h ts = (case h of None \<Rightarrow> ts | Some i \<Rightarrow> filter (\<lambda>t. fst t \<noteq> i) ts)"

text \<open>
  \<open>later\<close> calls \<open>func\<close> as its last statement: whether \<open>func\<close> returns or throws,
  the closure is left the same, and the call is recorded.
\<close>

definition later :: "nat \<Rightarrow> 'a \<Rightarrow> 'a debounced \<Rightarrow> 'a debounced" where
  "later now args s =
     (let s1 = s\<lparr>d_pending := clearTimeout (timeout s) (d_pending s)\<rparr>
      in s1\<lparr>func_calls := func_calls s1 @ [(now, args)]\<rparr>)"

definition executedFunction :: "nat \<Rightarrow> nat \<Rightarrow> 'a \<Rightarrow> 'a debounced \<Rightarrow> 'a debounced" where
  "executedFunction wait now args s =
     (let s1 = s\<lparr>d_pending := clearTimeout (timeout s) (d_pending s)\<rparr>;
          h = d_next s1
      in s1\<lparr>d_pending := d_pending s1 @ [(h, now + wait, args)],
             timeout := Some h, d_next := Suc h\<rparr>)"

text \<open>
  The event loop: a pending timer runs once its time has come, the one due first before
  the others (the older one first when two are due together), and is no longer pending
  when it runs. A timer runs at the time it is due, and a timer due at the time of a
  call runs before the call.
\<close>

fun earliest :: "(nat \<times> nat \<times> 'a) list \<Rightarrow> (nat \<times> nat \<times> 'a) option" where
  "earliest [] = None"
| "earliest (t # ts) =
     (case earliest ts of
        None \<Rightarrow> Some t
      | Some u \<Rightarrow> if fst (snd t) \<le> fst (snd u) then Some t else Some u)"

function run_timers :: "nat \<Rightarrow> 'a debounced \<Rightarrow> 'a debounced" where
  "run_timers now s =
     (case earliest (d_pending s) of
        None \<Rightarrow> s
      | Some t \<Rightarrow>
          if fst (snd t) \<le> now
          then run_timers now
                 (later (fst (snd t)) (snd (snd t)) (s\<lparr>d_pending := remove1 t (d_pending s)\<rparr>))
          else s)"
  by pat_completeness auto
termination
proof (relation "measure (\<lambda>(now, s). length (d_pending s))")
  show "wf (measure (\<lambda>(now, s :: 'a debounced). length (d_pending s)))"
    by simp
next
  fix now :: nat and s :: "'a debounced" and t :: "nat \<times> nat \<times> 'a"
  assume e: "earliest (d_pending s) = Some t" and "fst (snd t) \<le> now"
  have mem: "earliest ts = Some u \<Longrightarrow> u \<in> set ts" for ts :: "(nat \<times> nat \<times> 'a) list" and u
    by (induction ts arbitrary: u) (auto split: option.splits if_splits)
  have "t \<in> set (d_pending s)"
    using e mem by blast
  then have less: "length (remove1 t (d_pending s)) < length (d_pending s)"
    by (simp add: length_remove1) (cases "d_pending s"; simp)
  have "length (clearTimeout h ts) \<le> length ts" for h and ts :: "(nat \<times> nat \<times> 'a) list"
    by (cases h) (simp_all add: clearTimeout_def)
  with less have
    "length (clearTimeout (timeout s) (remove1 t (d_pending s))) < length (d_pending s)"
    using le_less_trans by blast
  then show "((now, later (fst (snd t)) (snd (snd t)) (s\<lparr>d_pending := remove1 t (d_pending s)\<rparr>)),
              (now, s)) \<in> measure (\<lambda>(now, s). length (d_pending s))"
    by (simp add: later_def Let_def)
qed

text \<open>
  A call of the wrapper at time \<open>t\<close>: the timers due by then have run. A burst is a
  sequence of calls, each with its time and arguments.
\<close>

definition debounce_call :: "nat \<Rightarrow> 'a debounced \<Rightarrow> nat \<times> 'a \<Rightarrow> 'a debounced" where
  "debounce_call wait s c = executedFunction wait (fst c) (snd c) (run_timers (fst c) s)"

definition debounce_burst :: "nat \<Rightarrow> (nat \<times> 'a) list \<Rightarrow> 'a debounced \<Rightarrow> 'a debounced" where
  "debounce_burst wait cs s = foldl (debounce_call wait) s cs"

text \<open>The calls of a burst are in time order, each within the wait window of the one before.\<close>

fun within_window :: "nat \<Rightarrow> (nat \<times> 'a) list \<Rightarrow> bool" where
  "within_window w [] = True"
| "within_window w [c] = True"
| "within_window w (c # d # cs) =
     (fst c \<le> fst d \<and> fst d < fst c + w \<and> within_window w (d # cs))"

subsection \<open>throttle\<close>

text \<open>
  The closure of one \<open>throttle(func, limit)\<close>: its variable \<open>inThrottle\<close> (undefined at
  first, which is falsy), the times at which its pending reset callbacks are due, and the
  calls of \<open>func\<close> made so far. What \<open>func\<close> does is a parameter: called at a time with
  arguments it returns (\<open>None\<close>) or throws.
\<close>

record 'a throttled =
  inThrottle :: bool
  t_pending :: "nat list"
  t_calls :: "(nat \<times> 'a) list"


text \<open>
  The wrapper calls \<open>func\<close> first and sets \<open>inThrottle\<close> and the reset timer after it: an
  error thrown by \<open>func\<close> leaves the wrapper before either.
\<close>

definition throttled_call ::
    "(nat \<Rightarrow> 'a \<Rightarrow> js_error option) \<Rightarrow> nat \<Rightarrow> nat \<Rightarrow> 'a \<Rightarrow> 'a throttled
       \<Rightarrow> 'a throttled outcome" where
  "throttled_call func limit now args s =
     (if \<not> inThrottle s then
        (let s1 = s\<lparr>t_calls := t_calls s @ [(now, args)]\<rparr>
         in case func now args of
              Some error \<Rightarrow> Thrown error s1
            | None \<Rightarrow>
                Returned (s1\<lparr>inThrottle := True, t_pending := t_pending s1 @ [now + limit]\<rparr>))
      else Returned s)"

text \<open>Every reset callback does the same assignment, so the order among those due is immaterial.\<close>

definition run_resets :: "nat \<Rightarrow> 'a throttled \<Rightarrow> 'a throttled" where
  "run_resets now s =
     (if list_ex (\<lambda>d. d \<le> now) (t_pending s)
      then s\<lparr>inThrottle := False, t_pending := filter (\<lambda>d. now < d) (t_pending s)\<rparr>
      else s)"

text \<open>
  A call of the wrapper at time \<open>t\<close>, as a listener of an event: the reset callbacks due
  by then have run.
\<close>

definition throttle_call ::
    "(nat \<Rightarrow> 'a \<Rightarrow> js_error option) \<Rightarrow> nat \<Rightarrow> 'a throttled \<Rightarrow> nat \<times> 'a \<Rightarrow> 'a throttled" where
  "throttle_call func limit s c =
     state_of (throttled_call func limit (fst c) (snd c) (run_resets (fst c) s))"


subsection \<open>announce\<close>

text \<open>
  \<open>announcements\<close> is the text of the element \<open>#announcements\<close>, \<open>None\<close> when the
  page has no such element.
\<close>

definition announce :: "js_string \<Rightarrow> 'a page_scheme \<Rightarrow> 'a page_scheme" where
  "announce message s =
     (case announcements s of
        None \<Rightarrow> s
      | Some _ \<Rightarrow> s\<lparr>announcements := Some message,
                      timers := timers s @ [(1000, ClearAnnouncement)]\<rparr>)"

subsection \<open>formatTime\<close>

function digits :: "nat \<Rightarrow> js_string" where
  "digits n = (if n < 10 then [48 + n] else digits (n div 10) @ [48 + n mod 10])"
  by pat_completeness auto
termination
  by (relation "measure id") auto

text \<open>\<open>Number.prototype.toString\<close> and template interpolation, on an integer.\<close>

definition js_int_string :: "int \<Rightarrow> js_string" where
  "js_int_string k = (if k < 0 then 45 # digits (nat (- k)) else digits (nat k))"

definition padStart :: "nat \<Rightarrow> nat \<Rightarrow> js_string \<Rightarrow> js_string" where
  "padStart n c s = replicate (n - length s) c @ s"

text \<open>The remainder operator \<open>%\<close> takes the sign of the dividend.\<close>

definition js_rem :: "int \<Rightarrow> int \<Rightarrow> int" where
  "js_rem a b = (if a < 0 then - ((- a) mod \<bar>b\<bar>) else a mod \<bar>b\<bar>)"

definition formatTime :: "int \<Rightarrow> js_string" where
  "formatTime seconds =
     (let mins = seconds div 60;
          secs = js_rem seconds 60
      in js_int_string mins @ [58] @ padStart 2 48 (js_int_string secs))"

section \<open>Navigation: smooth scrolling\<close>

text \<open>
  \<open>utils.$('#' + targetId)\<close> is \<open>document.querySelector\<close> on the text \<open>#\<close> followed by
  the fragment. Where the fragment is a CSS identifier of ASCII letters, digits, hyphens
  and underscores, the text is an ID selector, and the element with that id is found, if
  there is one. Where the fragment is empty or begins with a digit, or with a hyphen that
  is its last character or is followed by a digit, the text is no selector, and
  \<open>querySelector\<close> throws a SyntaxError. What the selector engine makes of any other
  text (a compound selector, a pseudo-class, an escape, a character beyond ASCII or one
  that is no part of a selector) is the parameter \<open>other_selectors\<close> of the page.
\<close>

definition is_name_start :: "nat \<Rightarrow> bool" where
  "is_name_start c \<longleftrightarrow> (65 \<le> c \<and> c \<le> 90) \<or> (97 \<le> c \<and> c \<le> 122) \<or> c = 95"

definition is_name_char :: "nat \<Rightarrow> bool" where
  "is_name_char c \<longleftrightarrow> is_name_start c \<or> (48 \<le> c \<and> c \<le> 57) \<or> c = 45"

definition css_identifier :: "js_string \<Rightarrow> bool" where
  "css_identifier s =
     (case s of
        [] \<Rightarrow> False
      | c # r \<Rightarrow>
          if c = 45 then
            (case r of
               [] \<Rightarrow> False
             | d # r' \<Rightarrow> (is_name_start d \<or> d = 45) \<and> list_all is_name_char r')
          else is_name_start c \<and> list_all is_name_char r)"

definition no_selector :: "js_string \<Rightarrow> bool" where
  "no_selector s =
     (case s of
        [] \<Rightarrow> True
      | c # r \<Rightarrow>
          (48 \<le> c \<and> c \<le> 57)
          \<or> (c = 45 \<and> (case r of [] \<Rightarrow> True | d # _ \<Rightarrow> 48 \<le> d \<and> d \<le> 57)))"

text \<open>
  What the click handler of a link \<open>a[href^="#"]\<close> reads and writes: \<open>header\<close> is the
  \<open>offsetHeight\<close> of the element \<open>utils.$('.header')\<close> finds (\<open>None\<close> when the page has
  none), \<open>ids\<close> gives the \<open>offsetTop\<close> of the first element with a given id,
  \<open>prevented\<close> tells whether \<open>preventDefault\<close> was called on the click being handled,
  \<open>scrolledTo\<close> is the \<open>top\<close> of the last \<open>window.scrollTo\<close>.
\<close>

record scroll_page = page +
  header :: "int option"
  ids :: "js_string \<rightharpoonup> int"
  other_selectors :: "js_string \<Rightarrow> js_error + int option"
  prevented :: bool
  scrolledTo :: "int option"

definition querySelector_id :: "scroll_page \<Rightarrow> js_string \<Rightarrow> js_error + int option" where
  "querySelector_id s targetId =
     (if css_identifier targetId then Inr (ids s targetId)
      else if no_selector targetId then Inl SyntaxError
      else other_selectors s targetId)"

definition smoothScrollClick :: "js_string \<Rightarrow> scroll_page \<Rightarrow> scroll_page outcome" where
  "smoothScrollClick href s0 =
     (let s = s0\<lparr>prevented := False\<rparr>;
          targetId = drop 1 href
      in case querySelector_id s targetId of
           Inl error \<Rightarrow> Thrown error s
         | Inr None \<Rightarrow> Returned s
         | Inr (Some offsetTop) \<Rightarrow>
             (let s1 = s\<lparr>prevented := True\<rparr>
              in case header s1 of
                   None \<Rightarrow> Thrown TypeError s1
                 | Some offsetHeight \<Rightarrow>
                     (let headerHeight = (if offsetHeight = 0 then 0 else offsetHeight);
                          targetPosition = offsetTop - headerHeight - 20
                      in Returned (s1\<lparr>scrolledTo := Some targetPosition,
                                       timers := timers s1 @ [(500, FocusTarget targetId)]\<rparr>))))"

section \<open>AudioPlayer\<close>

subsection \<open>parseDuration\<close>

text \<open>
  \<open>parseInt\<close> without a radix: leading white space, a sign, a \<open>0x\<close> prefix for base 16,
  then the longest run of digits; \<open>None\<close> is NaN. The result is the exact integer (a
  double is exact up to \<open>2^53\<close>).
\<close>

definition digit_value :: "nat \<Rightarrow> nat option" where
  "digit_value c =
     (if 48 \<le> c \<and> c \<le> 57 then Some (c - 48)
      else if 97 \<le> c \<and> c \<le> 122 then Some (c - 87)
      else if 65 \<le> c \<and> c \<le> 90 then Some (c - 55)
      else None)"

definition is_digit_in :: "nat \<Rightarrow> nat \<Rightarrow> bool" where
  "is_digit_in radix c = (case digit_value c of None \<Rightarrow> False | Some v \<Rightarrow> v < radix)"

definition digits_value :: "nat \<Rightarrow> js_string \<Rightarrow> int" where
  "digits_value radix z = foldl (\<lambda>acc c. acc * int radix + int (the (digit_value c))) 0 z"

definition parseInt :: "js_string \<Rightarrow> int option" where
  "parseInt inputString =
     (let s = dropWhile is_js_space inputString;
          sign = (case s of c # _ \<Rightarrow> if c = 45 then - 1 else 1 | [] \<Rightarrow> 1);
          s1 = (case s of c # r \<Rightarrow> if c = 45 \<or> c = 43 then r else s | [] \<Rightarrow> s);
          hex = (case s1 of a # b # _ \<Rightarrow> a = 48 \<and> (b = 120 \<or> b = 88) | _ \<Rightarrow> False);
          radix = (if hex then 16 else 10);
          s2 = (if hex then drop 2 s1 else s1);
          z = takeWhile (is_digit_in radix) s2
      in if z = [] then None else Some (sign * digits_value radix z))"

text \<open>
  \<open>timeString.split(':')\<close>: the first part always exists; the second is undefined when
  the text has no colon, and \<open>parseInt(undefined)\<close> is NaN.
\<close>

definition parseDuration :: "js_string \<Rightarrow> int option" where
  "parseDuration timeString =
     (let part0 = takeWhile (\<lambda>c. c \<noteq> 58) timeString;
          rest = dropWhile (\<lambda>c. c \<noteq> 58) timeString
      in case rest of
           [] \<Rightarrow> None
         | _ # r \<Rightarrow>
             (case (parseInt part0, parseInt (takeWhile (\<lambda>c. c \<noteq> 58) r)) of
                (Some m, Some sec) \<Rightarrow> Some (m * 60 + sec)
              | _ \<Rightarrow> None))"

subsection \<open>Players\<close>

text \<open>
  The content of a play button is the markup the page came with or one of the two icons
  the script writes.
\<close>

datatype icon = PageMarkup | PlayIcon | PauseIcon

record play_button =
  innerHTML :: icon
  aria_label :: attr
  classList :: "string list"

record volume_button =
  muted :: bool
  volume_label :: attr

text \<open>
  A player element (\<open>.episode-player, .player\<close>; player elements do not nest) with the
  elements the script looks up in it (its play buttons in document order, the first being
  \<open>playBtn\<close>; the width of the progress fill in percent; the texts of the current and
  total time) and the variables of the closure \<open>initializePlayer\<close> creates for it.
\<close>

record player =
  playButtons :: "play_button list"
  progressBar :: "rat option"
  currentTime :: "js_string option"
  totalTime :: "js_string option"
  volumeBtn :: "volume_button option"
  isPlaying :: bool
  progress :: int
  duration :: "int option"

text \<open>\<open>otherButtons\<close> are the play buttons of the page that lie in no player element.\<close>

record audio_page = page +
  players :: "player list"
  otherButtons :: "play_button list"

definition initializePlayer :: "player \<Rightarrow> player" where
  "initializePlayer p =
     (case playButtons p of
        [] \<Rightarrow> p
      | _ # _ \<Rightarrow>
          p\<lparr>isPlaying := False, progress := 0,
            duration := parseDuration
              (case totalTime p of None \<Rightarrow> js ''0:00''
               | Some txt \<Rightarrow> if txt = [] then js ''0:00'' else txt)\<rparr>)"

definition setupPlayers :: "audio_page \<Rightarrow> audio_page" where
  "setupPlayers s = s\<lparr>players := map initializePlayer (players s)\<rparr>"

definition show_play :: "play_button \<Rightarrow> play_button" where
  "show_play b = b\<lparr>innerHTML := PlayIcon, aria_label := Some (js ''Play episode'')\<rparr>"

definition playAudio :: "nat \<Rightarrow> audio_page \<Rightarrow> audio_page" where
  "playAudio i s =
     s\<lparr>players :=
         map (\<lambda>j. if j = i then players s ! j
                  else (players s ! j)\<lparr>playButtons := map show_play (playButtons (players s ! j))\<rparr>)
           [0..<length (players s)],
       otherButtons := map show_play (otherButtons s)\<rparr>"

definition playClick :: "nat \<Rightarrow> audio_page \<Rightarrow> audio_page" where
  "playClick i s =
     (if i < length (players s) then
        (case playButtons (players s ! i) of
           [] \<Rightarrow> s
         | _ # _ \<Rightarrow>
             (let playing = \<not> isPlaying (players s ! i);
                  s1 = s\<lparr>players := (players s)[i := (players s ! i)\<lparr>isPlaying := playing\<rparr>]\<rparr>
              in if playing then
                   (let s2 = playAudio i s1;
                        p = players s2 ! i;
                        playBtn = (hd (playButtons p))
                          \<lparr>innerHTML := PauseIcon, aria_label := Some (js ''Pause episode''),
                           classList := List.insert ''scale-110'' (classList (hd (playButtons p)))\<rparr>;
                        s3 = s2\<lparr>players := (players s2)[i := p\<lparr>playButtons := playBtn # tl (playButtons p)\<rparr>],
                               timers := timers s2 @ [(300, RemoveClass i ''scale-110'')]\<rparr>
                    in announce (js ''Playing episode'') s3)
                 else
                   (let p = players s1 ! i;
                        playBtn = show_play (hd (playButtons p));
                        s3 = s1\<lparr>players := (players s1)[i := p\<lparr>playButtons := playBtn # tl (playButtons p)\<rparr>]\<rparr>
                    in announce (js ''Episode paused'') s3)))
      else s)"

text \<open>
  \<open>updateProgress\<close>, the callback of the player's 1000 ms interval. The interval exists
  when the player has a play button, a progress fill and a current-time element.
\<close>

definition updateProgress :: "nat \<Rightarrow> audio_page \<Rightarrow> audio_page" where
  "updateProgress i s =
     (if i < length (players s) then
        (let p = players s ! i
         in if playButtons p \<noteq> [] \<and> progressBar p \<noteq> None \<and> currentTime p \<noteq> None then
              (case duration p of
                 None \<Rightarrow> s
               | Some d \<Rightarrow>
                   if isPlaying p \<and> progress p < d then
                     (let progress' = progress p + 1;
                          percentage = of_int progress' / of_int d * 100
                      in s\<lparr>players := (players s)
                             [i := p\<lparr>progress := progress',
                                     progressBar := Some percentage,
                                     currentTime := Some (formatTime progress')\<rparr>]\<rparr>)
                   else s)
            else s)
      else s)"

definition volumeClick :: "nat \<Rightarrow> audio_page \<Rightarrow> audio_page" where
  "volumeClick i s =
     (if i < length (players s) then
        (let p = players s ! i
         in case volumeBtn p of
              None \<Rightarrow> s
            | Some v \<Rightarrow>
                if playButtons p = [] then s
                else
                  (let isMuted = \<not> muted v;
                       v' = v\<lparr>muted := isMuted,
                              volume_label := Some (if isMuted then js ''Unmute'' else js ''Mute'')\<rparr>
                   in announce (if isMuted then js ''Audio muted'' else js ''Audio unmuted'')
                        (s\<lparr>players := (players s)[i := p\<lparr>volumeBtn := Some v'\<rparr>]\<rparr>)))
      else s)"

text \<open>What can happen to the players: a click on a play button, a tick, a click on a volume button.\<close>

datatype player_event = PlayClick nat | ProgressTick nat | VolumeClick nat

fun audio_step :: "audio_page \<Rightarrow> player_event \<Rightarrow> audio_page" where
  "audio_step s (PlayClick i) = playClick i s"
| "audio_step s (ProgressTick i) = updateProgress i s"
| "audio_step s (VolumeClick i) = volumeClick i s"

definition audio_run :: "audio_page \<Rightarrow> player_event list \<Rightarrow> audio_page" where
  "audio_run s evs = foldl audio_step s evs"

section \<open>Modal: the email-capture form\<close>

record submit_button =
  disabled :: bool
  textContent :: js_string
  background :: js_string

text \<open>
  The email-capture modal and its form: the modal's \<open>aria-hidden\<close> attribute and
  \<open>display\<close> style, the \<open>overflow\<close> style of the body, the value of the form's first
  \<open>input[type="email"]\<close> (\<open>None\<close>: the form has none) and the value \<open>form.reset()\<close>
  gives it back, the submit button, the text of the form's \<open>.form__error\<close> element, and
  the arguments of the calls of the stub \<open>submitEmail\<close> made so far.
\<close>

record modal_page = page +
  modal_aria_hidden :: attr
  modal_display :: js_string
  body_overflow :: js_string
  emailInput :: "js_string option"
  emailDefault :: js_string
  submitBtn :: "submit_button option"
  errorDiv :: "js_string option"
  submitEmail_calls :: "js_string list"

definition closeModal :: "modal_page \<Rightarrow> modal_page" where
  "closeModal s =
     announce (js ''Dialog closed'')
       (s\<lparr>modal_aria_hidden := Some (js ''true''),
          timers := timers s @ [(250, HideModal)],
          body_overflow := []\<rparr>)"

text \<open>
  The stub starts a 1500 ms timer whose callback settles the promise either way; the
  call is recorded with its argument.
\<close>

definition submitEmail :: "js_string \<Rightarrow> 'a modal_page_scheme \<Rightarrow> 'a modal_page_scheme" where
  "submitEmail email s =
     s\<lparr>submitEmail_calls := submitEmail_calls s @ [email],
       timers := timers s @ [(1500, SubmitEmailSettles email)]\<rparr>"

text \<open>
  \<open>handleEmailSubmission\<close> up to its \<open>await\<close>, where it is suspended holding
  \<open>originalText\<close>; then its two continuations, and the callback of the 2000 ms timer.
\<close>

definition handleEmailSubmission :: "modal_page \<Rightarrow> (js_string, modal_page) async_outcome" where
  "handleEmailSubmission s =
     (case emailInput s of
        None \<Rightarrow> Settled (Thrown TypeError s)
      | Some email \<Rightarrow>
          (let s1 = s\<lparr>errorDiv := map_option (\<lambda>_. []) (errorDiv s)\<rparr>
           in if \<not> isValidEmail email then
                Settled (Returned
                  (announce (js ''Please enter a valid email address'')
                     (s1\<lparr>errorDiv :=
                           map_option (\<lambda>_. js ''Please enter a valid email address'') (errorDiv s1)\<rparr>)))
              else
                (case submitBtn s1 of
                   None \<Rightarrow> Settled (Thrown TypeError s1)
                 | Some b \<Rightarrow>
                     (let originalText = textContent b;
                          s2 = s1\<lparr>submitBtn :=
                                  Some (b\<lparr>disabled := True, textContent := js ''Subscribing...''\<rparr>)\<rparr>
                      in Awaits originalText (submitEmail email s2)))))"

definition emailSubmission_fulfilled :: "js_string \<Rightarrow> modal_page \<Rightarrow> modal_page" where
  "emailSubmission_fulfilled originalText s =
     (let s1 = s\<lparr>submitBtn :=
                  map_option (\<lambda>b. b\<lparr>textContent := js ''Subscribed!'',
                                      background := js ''var(--color-success)''\<rparr>) (submitBtn s)\<rparr>;
          s2 = announce (js ''Successfully subscribed to newsletter'') s1
      in s2\<lparr>timers := timers s2 @ [(2000, AfterSubscribed originalText)]\<rparr>)"

definition emailSubmission_rejected :: "js_string \<Rightarrow> modal_page \<Rightarrow> modal_page" where
  "emailSubmission_rejected originalText s =
     announce (js ''Subscription failed. Please try again.'')
       (s\<lparr>errorDiv := map_option (\<lambda>_. js ''Something went wrong. Please try again.'') (errorDiv s),
          submitBtn := map_option (\<lambda>b. b\<lparr>disabled := False, textContent := originalText\<rparr>)
                         (submitBtn s)\<rparr>)"

definition afterSubscribed :: "js_string \<Rightarrow> modal_page \<Rightarrow> modal_page" where
  "afterSubscribed originalText s =
     (let s1 = closeModal s
      in s1\<lparr>emailInput := map_option (\<lambda>_. emailDefault s1) (emailInput s1),
            submitBtn := map_option (\<lambda>b. b\<lparr>disabled := False, textContent := originalText,
                                            background := []\<rparr>) (submitBtn s1)\<rparr>)"

section \<open>Forms\<close>

subsection \<open>validateField\<close>

datatype field_tag = InputTag | TextareaTag | SelectTag

text \<open>
  A form control: its tag, \<open>name\<close>, \<open>type\<close>, whether it has the attribute
  \<open>required\<close>, its \<open>value\<close>, its attribute \<open>aria-invalid\<close>, and whether it has the
  class \<open>field-error\<close>.
\<close>

record field =
  tag :: field_tag
  fname :: js_string
  ftype :: js_string
  required :: bool
  fvalue :: js_string
  aria_invalid :: attr
  field_error :: bool

text \<open>
  A contact form (\<open>.contact-form, .inquiry-form\<close>): its controls in document order, its
  submit button, the texts of the elements \<open>#<name>-error\<close> of the page by field name,
  and the form data of the calls of the stub \<open>submitContactForm\<close> made so far.
\<close>

record contact_page = page +
  controls :: "field list"
  contactBtn :: "submit_button option"
  error_divs :: "js_string \<rightharpoonup> js_string"
  submitContactForm_calls :: "(js_string \<times> js_string) list list"

definition trim :: "js_string \<Rightarrow> js_string" where
  "trim s = rev (dropWhile is_js_space (rev (dropWhile is_js_space s)))"

text \<open>The validity \<open>validateField\<close> returns, and the message it shows.\<close>

definition field_verdict :: "field \<Rightarrow> bool \<times> js_string" where
  "field_verdict f =
     (let v0 = (True, []);
          v1 = (if required f \<and> trim (fvalue f) = []
                then (False, js ''This field is required'') else v0);
          v2 = (if ftype f = js ''email'' \<and> fvalue f \<noteq> [] \<and> \<not> isValidEmail (fvalue f)
                then (False, js ''Please enter a valid email address'') else v1)
      in v2)"

definition validateField :: "nat \<Rightarrow> contact_page \<Rightarrow> bool \<times> contact_page" where
  "validateField i s =
     (let f = controls s ! i;
          isValid = fst (field_verdict f);
          message = snd (field_verdict f);
          s1 = (case error_divs s (fname f) of
                  None \<Rightarrow> s
                | Some _ \<Rightarrow> s\<lparr>error_divs := (error_divs s)(fname f \<mapsto> message)\<rparr>)
      in (isValid,
          s1\<lparr>controls := (controls s1)[i := f\<lparr>aria_invalid := bool_attr (\<not> isValid),
                                           field_error := \<not> isValid\<rparr>]\<rparr>))"

subsection \<open>handleContactSubmission\<close>

text \<open>The controls \<open>input[required], textarea[required]\<close> of the form, by position.\<close>

definition required_inputs :: "field list \<Rightarrow> nat list" where
  "required_inputs fs =
     filter (\<lambda>i. (tag (fs ! i) = InputTag \<or> tag (fs ! i) = TextareaTag) \<and> required (fs ! i))
       [0..<length fs]"

fun validate_all :: "nat list \<Rightarrow> bool \<Rightarrow> contact_page \<Rightarrow> bool \<times> contact_page" where
  "validate_all [] allValid s = (allValid, s)"
| "validate_all (i # inputs) allValid s =
     (let (ok, s') = validateField i s
      in validate_all inputs (if \<not> ok then False else allValid) s')"

text \<open>\<open>new FormData(form)\<close>: the named controls with their values.\<close>

definition formData :: "field list \<Rightarrow> (js_string \<times> js_string) list" where
  "formData fs = map (\<lambda>f. (fname f, fvalue f)) (filter (\<lambda>f. fname f \<noteq> []) fs)"

definition submitContactForm ::
    "(js_string \<times> js_string) list \<Rightarrow> contact_page \<Rightarrow> contact_page" where
  "submitContactForm data s =
     s\<lparr>submitContactForm_calls := submitContactForm_calls s @ [data],
       timers := timers s @ [(2000, SubmitContactSettles)]\<rparr>"

definition handleContactSubmission :: "contact_page \<Rightarrow> (js_string, contact_page) async_outcome" where
  "handleContactSubmission s =
     (let inputs = required_inputs (controls s);
          (allValid, s1) = validate_all inputs True s
      in if \<not> allValid then
           Settled (Returned (announce (js ''Please correct the errors in the form'') s1))
         else
           (case contactBtn s1 of
              None \<Rightarrow> Settled (Thrown TypeError s1)
            | Some b \<Rightarrow>
                (let originalText = textContent b;
                     s2 = s1\<lparr>contactBtn :=
                             Some (b\<lparr>disabled := True, textContent := js ''Sending...''\<rparr>)\<rparr>
                 in Awaits originalText (submitContactForm (formData (controls s2)) s2))))"

definition contactSubmission_fulfilled :: "js_string \<Rightarrow> contact_page \<Rightarrow> contact_page" where
  "contactSubmission_fulfilled originalText s =
     (let s1 = s\<lparr>contactBtn :=
                  map_option (\<lambda>b. b\<lparr>textContent := js ''Message Sent!'',
                                      background := js ''var(--color-success)''\<rparr>) (contactBtn s)\<rparr>;
          s2 = announce (js ''Message sent successfully. We will respond within 48 hours.'') s1
      in s2\<lparr>timers := timers s2 @ [(3000, AfterMessageSent originalText)]\<rparr>)"

definition contactSubmission_rejected :: "js_string \<Rightarrow> contact_page \<Rightarrow> contact_page" where
  "contactSubmission_rejected originalText s =
     (let s1 = s\<lparr>contactBtn :=
                  map_option (\<lambda>b. b\<lparr>disabled := False, textContent := js ''Try Again''\<rparr>)
                    (contactBtn s)\<rparr>;
          s2 = announce (js ''Message failed to send. Please try again.'') s1
      in s2\<lparr>timers := timers s2 @ [(3000, RestoreLabel originalText)]\<rparr>)"

section \<open>FAQ\<close>

text \<open>
  A \<open>.faq-item\<close> (items do not nest): the attribute \<open>aria-expanded\<close> of its
  \<open>.faq-item__question\<close> and the attribute \<open>aria-hidden\<close> of its \<open>.faq-item__answer\<close>,
  \<open>None\<close> where the item has no such element.
\<close>

record faq_item =
  question :: "attr option"
  answer :: "attr option"

record faq_page = page +
  faqItems :: "faq_item list"

text \<open>
  The loop that closes the other items, from position \<open>k\<close> on; it stops where
  \<open>setAttribute\<close> is called on a missing element.
\<close>

fun close_others :: "nat \<Rightarrow> nat \<Rightarrow> faq_item list \<Rightarrow> faq_item list \<times> js_error option" where
  "close_others i k [] = ([], None)"
| "close_others i k (otherItem # rest) =
     (if k = i then
        (let (rest', e) = close_others i (Suc k) rest in (otherItem # rest', e))
      else
        (case question otherItem of
           None \<Rightarrow> (otherItem # rest, Some TypeError)
         | Some _ \<Rightarrow>
             (let item1 = otherItem\<lparr>question := Some (Some (js ''false''))\<rparr>
              in case answer item1 of
                   None \<Rightarrow> (item1 # rest, Some TypeError)
                 | Some _ \<Rightarrow>
                     (let item2 = item1\<lparr>answer := Some (Some (js ''true''))\<rparr>;
                          (rest', e) = close_others i (Suc k) rest
                      in (item2 # rest', e)))))"

text \<open>The click handler of the question of item \<open>i\<close>; an item lacking its question or its answer gets no handler.\<close>

definition questionClick :: "nat \<Rightarrow> faq_page \<Rightarrow> faq_page outcome" where
  "questionClick i s =
     (if i < length (faqItems s) \<and> question (faqItems s ! i) \<noteq> None
         \<and> answer (faqItems s ! i) \<noteq> None then
        (let isExpanded = (question (faqItems s ! i) = Some (Some (js ''true'')));
             (items, e) = close_others i 0 (faqItems s)
         in case e of
              Some err \<Rightarrow> Thrown err (s\<lparr>faqItems := items\<rparr>)
            | None \<Rightarrow>
                Returned
                  (announce (if isExpanded then js ''Section collapsed'' else js ''Section expanded'')
                     (s\<lparr>faqItems := items
                          [i := (items ! i)\<lparr>question := Some (bool_attr (\<not> isExpanded)),
                                           answer := Some (bool_attr isExpanded)\<rparr>]\<rparr>)))
      else Returned s)"

text \<open>
  The keydown handler of the question: Enter and Space click it. An error thrown by the
  click handler is reported, not passed on to the keydown handler.
\<close>

definition questionKeydown :: "nat \<Rightarrow> js_string \<Rightarrow> faq_page \<Rightarrow> faq_page" where
  "questionKeydown i key s =
     (if key = js ''Enter'' \<or> key = js '' '' then state_of (questionClick i s) else s)"

datatype faq_event = QuestionClick nat | QuestionKey nat js_string

fun faq_step :: "faq_page \<Rightarrow> faq_event \<Rightarrow> faq_page" where
  "faq_step s (QuestionClick i) = state_of (questionClick i s)"
| "faq_step s (QuestionKey i key) = questionKeydown i key s"

definition faq_run :: "faq_page \<Rightarrow> faq_event list \<Rightarrow> faq_page" where
  "faq_run s evs = foldl faq_step s evs"

definition expanded :: "faq_item \<Rightarrow> bool" where
  "expanded it \<longleftrightarrow> question it = Some (Some (js ''true''))"

definition expanded_count :: "faq_item list \<Rightarrow> nat" where
  "expanded_count items = length (filter expanded items)"

definition complete_item :: "faq_item \<Rightarrow> bool" where
  "complete_item it \<longleftrightarrow> question it \<noteq> None \<and> answer it \<noteq> None"

section \<open>Initialization\<close>

datatype component =
    Navigation | AudioPlayer | Modal | Forms | FAQ | Search
  | ScrollEffects | Animations | Theme | ErrorHandler | Performance

datatype console_entry = ConsoleLog js_string | ConsoleError js_string js_error

text \<open>
  The page as the orchestrator sees it: the console, and in \<open>document\<close> everything the
  components set up. What the \<open>init\<close> of a component does to the page, and whether it
  throws there, is the parameter \<open>init\<close>.
\<close>

record 'd site = page +
  console :: "console_entry list"
  document :: 'd

definition init_order :: "component list" where
  "init_order =
     [Navigation, AudioPlayer, Modal, Forms, FAQ, Search,
      ScrollEffects, Animations, Theme, ErrorHandler, Performance]"

fun run_inits ::
    "(component \<Rightarrow> 'd site \<Rightarrow> 'd site outcome) \<Rightarrow> component list \<Rightarrow> 'd site \<Rightarrow> 'd site outcome" where
  "run_inits init [] s = Returned s"
| "run_inits init (c # cs) s =
     (case init c s of
        Returned s' \<Rightarrow> run_inits init cs s'
      | Thrown e s' \<Rightarrow> Thrown e s')"

definition initializeComponents ::
    "(component \<Rightarrow> 'd site \<Rightarrow> 'd site outcome) \<Rightarrow> 'd site \<Rightarrow> 'd site" where
  "initializeComponents init s =
     (case run_inits init init_order s of
        Returned s' \<Rightarrow>
          announce (js ''Page loaded'')
            (s'\<lparr>console := console s' @
                   [ConsoleLog (js ''Prism of Torah website initialized successfully'')]\<rparr>)
      | Thrown error s' \<Rightarrow>
          s'\<lparr>console := console s' @ [ConsoleError (js ''Error initializing website:'') error]\<rparr>)"

text \<open>
  A page on which the \<open>init\<close> of one component throws and the \<open>init\<close> of every other
  one records that it ran.
\<close>

definition init_throwing :: "component \<Rightarrow> component \<Rightarrow> component list site \<Rightarrow> component list site outcome" where
  "init_throwing bad c s =
     (if c = bad then Thrown (OtherError ''init failed'') s
      else Returned (s\<lparr>document := document s @ [c]\<rparr>))"

definition blank_site :: "component list site" where
  "blank_site = \<lparr>announcements = Some [], timers = [], console = [], document = []\<rparr>"

section \<open>The specification's wording of the email pattern\<close>

text \<open>
  The pattern as the specification words it: a non-white-space run, \<open>@\<close>, a
  non-white-space run, \<open>.\<close>, a non-white-space run.
\<close>

definition non_space :: "nat \<Rightarrow> bool" where
  "non_space c \<longleftrightarrow> \<not> is_js_space c"

definition spec_email_pattern :: "js_string \<Rightarrow> bool" where
  "spec_email_pattern s =
     rx_match [OneOrMore non_space, One (\<lambda>c. c = 64), OneOrMore non_space,
               One (\<lambda>c. c = 46), OneOrMore non_space] s"

section \<open>Predicates used in the statements\<close>

text \<open>The state between the calls of a burst: one timer pending, the one \<open>timeout\<close> names.\<close>

definition one_pending :: "'a debounced \<Rightarrow> nat \<Rightarrow> 'a \<Rightarrow> bool" where
  "one_pending s d a \<longleftrightarrow> (\<exists>h. d_pending s = [(h, d, a)] \<and> timeout s = Some h)"




section \<open>Example pages\<close>

text \<open>
  A page with no \<open>.header\<close> element and two elements with an id; its selector engine
  rejects every fragment that is not an identifier (as it does \<open>#a:b\<close> or \<open>#top?x=1\<close>).
\<close>

definition page_without_header :: scroll_page where
  "page_without_header =
     \<lparr>announcements = None, timers = [], header = None,
      ids = [js ''about'' \<mapsto> 640, js ''2col'' \<mapsto> 900],
      other_selectors = (\<lambda>_. Inl SyntaxError), prevented = False, scrolledTo = None\<rparr>"



text \<open>A page with two players of two seconds each, as \<open>setupPlayers\<close> leaves it.\<close>

definition demo_player :: player where
  "demo_player =
     \<lparr>playButtons = [\<lparr>innerHTML = PageMarkup, aria_label = Some (js ''Play episode''), classList = []\<rparr>],
      progressBar = Some 0, currentTime = Some (js ''0:00''), totalTime = Some (js ''0:02''),
      volumeBtn = None, isPlaying = False, progress = 0, duration = None\<rparr>"

definition two_players :: audio_page where
  "two_players =
     setupPlayers \<lparr>announcements = Some [], timers = [],
                   players = [demo_player, demo_player], otherButtons = []\<rparr>"

definition ready_player :: player where
  "ready_player = demo_player\<lparr>duration := Some 2\<rparr>"


text \<open>A FAQ item with its question and its answer, expanded or collapsed.\<close>

definition faq_item_of :: "bool \<Rightarrow> faq_item" where
  "faq_item_of b = \<lparr>question = Some (bool_attr b), answer = Some (bool_attr (\<not> b))\<rparr>"

text \<open>
  A page with three FAQ items: the first has no question element, the second is expanded,
  the third is collapsed.
\<close>

definition incomplete_questions :: faq_page where
  "incomplete_questions =
     \<lparr>announcements = Some [], timers = [],
      faqItems = [\<lparr>question = None, answer = Some (bool_attr True)\<rparr>,
                  faq_item_of True, faq_item_of False]\<rparr>"

text \<open>The email-capture modal, open, with \<open>a@b\<close> typed into its form.\<close>

definition open_modal :: modal_page where
  "open_modal =
     \<lparr>announcements = Some [], timers = [],
      modal_aria_hidden = Some (js ''false''), modal_display = js ''flex'',
      body_overflow = js ''hidden'', emailInput = Some (js ''a@b''), emailDefault = [],
      submitBtn = Some \<lparr>disabled = False, textContent = js ''Subscribe'', background = []\<rparr>,
      errorDiv = Some [], submitEmail_calls = []\<rparr>"

text \<open>
  An inquiry form whose topic is a required \<open>select\<close> with nothing chosen and whose
  email field holds \<open>a@b.co\<close>.
\<close>

definition inquiry_form :: contact_page where
  "inquiry_form =
     \<lparr>announcements = Some [], timers = [],
      controls =
        [\<lparr>tag = SelectTag, fname = js ''topic'', ftype = js ''select-one'', required = True,
          fvalue = [], aria_invalid = None, field_error = False\<rparr>,
         \<lparr>tag = InputTag, fname = js ''email'', ftype = js ''email'', required = True,
          fvalue = js ''a@b.co'', aria_invalid = None, field_error = False\<rparr>],
      contactBtn = Some \<lparr>disabled = False, textContent = js ''Send'', background = []\<rparr>,
      error_divs = Map.empty, submitContactForm_calls = []\<rparr>"

section \<open>Properties of isValidEmail\<close>

lemma rx_match_OneOrMore:
  "rx_match (OneOrMore p # r) s \<longleftrightarrow>
     (\<exists>a b. s = a @ b \<and> a \<noteq> [] \<and> list_all p a \<and> rx_match r b)"
proof (induction s)
  case Nil
  then show ?case by simp
next
  case (Cons c s)
  show ?case
  proof
    assume "rx_match (OneOrMore p # r) (c # s)"
    then have pc: "p c" and d: "rx_match (OneOrMore p # r) s \<or> rx_match r s" by auto
    from d show "\<exists>a b. c # s = a @ b \<and> a \<noteq> [] \<and> list_all p a \<and> rx_match r b"
    proof
      assume "rx_match (OneOrMore p # r) s"
      with Cons.IH obtain a b where "s = a @ b" "a \<noteq> []" "list_all p a" "rx_match r b" by blast
      with pc have "c # s = (c # a) @ b \<and> c # a \<noteq> [] \<and> list_all p (c # a) \<and> rx_match r b" by simp
      then show ?thesis by blast
    next
      assume "rx_match r s"
      with pc have "c # s = [c] @ s \<and> [c] \<noteq> [] \<and> list_all p [c] \<and> rx_match r s" by simp
      then show ?thesis by blast
    qed
  next
    assume "\<exists>a b. c # s = a @ b \<and> a \<noteq> [] \<and> list_all p a \<and> rx_match r b"
    then obtain a b where ab: "c # s = a @ b" "a \<noteq> []" "list_all p a" "rx_match r b" by blast
    then obtain a' where a: "a = c # a'" by (cases a) auto
    with ab have s: "s = a' @ b" and pc: "p c" and pa: "list_all p a'" by auto
    show "rx_match (OneOrMore p # r) (c # s)"
    proof (cases "a' = []")
      case True
      with s ab pc show ?thesis by simp
    next
      case False
      with s pa ab have "rx_match (OneOrMore p # r) s" using Cons.IH by blast
      with pc show ?thesis by simp
    qed
  qed
qed

lemma rx_match_One:
  "rx_match (One p # r) s \<longleftrightarrow> (\<exists>c b. s = c # b \<and> p c \<and> rx_match r b)"
  by (cases s) auto

lemma rx_match_last:
  "rx_match [OneOrMore p] s \<longleftrightarrow> s \<noteq> [] \<and> list_all p s"
  by (auto simp: rx_match_OneOrMore)

lemma isValidEmail_iff:
  "isValidEmail s \<longleftrightarrow>
     (\<exists>a b c. s = a @ [64] @ b @ [46] @ c \<and> a \<noteq> [] \<and> b \<noteq> [] \<and> c \<noteq> []
        \<and> list_all not_space_at (a @ b @ c))"
proof
  assume "isValidEmail s"
  then have m: "rx_match (OneOrMore not_space_at # One (\<lambda>c. c = 64) # OneOrMore not_space_at
                  # One (\<lambda>c. c = 46) # [OneOrMore not_space_at]) s"
    by (simp add: isValidEmail_def emailRegex_def)
  from m obtain a r1 where a: "s = a @ r1" "a \<noteq> []" "list_all not_space_at a"
    and m1: "rx_match (One (\<lambda>c. c = 64) # OneOrMore not_space_at
                  # One (\<lambda>c. c = 46) # [OneOrMore not_space_at]) r1"
    unfolding rx_match_OneOrMore [of not_space_at _ s] by blast
  from m1 obtain r2 where r1: "r1 = 64 # r2"
    and m2: "rx_match (OneOrMore not_space_at # One (\<lambda>c. c = 46) # [OneOrMore not_space_at]) r2"
    unfolding rx_match_One [of _ _ r1] by blast
  from m2 obtain b r3 where b: "r2 = b @ r3" "b \<noteq> []" "list_all not_space_at b"
    and m3: "rx_match (One (\<lambda>c. c = 46) # [OneOrMore not_space_at]) r3"
    unfolding rx_match_OneOrMore [of not_space_at _ r2] by blast
  from m3 obtain c where r3: "r3 = 46 # c" and m4: "rx_match [OneOrMore not_space_at] c"
    unfolding rx_match_One [of _ _ r3] by blast
  from m4 have c: "c \<noteq> []" "list_all not_space_at c"
    by (simp_all add: rx_match_last)
  have "s = a @ [64] @ b @ [46] @ c"
    using a(1) r1 b(1) r3 by simp
  moreover have "list_all not_space_at (a @ b @ c)"
    using a(3) b(3) c(2) by simp
  ultimately show "\<exists>a b c. s = a @ [64] @ b @ [46] @ c \<and> a \<noteq> [] \<and> b \<noteq> [] \<and> c \<noteq> []
        \<and> list_all not_space_at (a @ b @ c)"
    using a(2) b(2) c(1) by blast
next
  assume "\<exists>a b c. s = a @ [64] @ b @ [46] @ c \<and> a \<noteq> [] \<and> b \<noteq> [] \<and> c \<noteq> []
        \<and> list_all not_space_at (a @ b @ c)"
  then obtain a b c where s: "s = a @ [64] @ b @ [46] @ c"
    and ne: "a \<noteq> []" "b \<noteq> []" "c \<noteq> []"
    and cls: "list_all not_space_at a" "list_all not_space_at b" "list_all not_space_at c"
    by auto
  have m4: "rx_match [OneOrMore not_space_at] c"
    using ne(3) cls(3) by (simp add: rx_match_last)
  have m3: "rx_match (One (\<lambda>c. c = 46) # [OneOrMore not_space_at]) (46 # c)"
    using m4 by simp
  have m2: "rx_match (OneOrMore not_space_at # One (\<lambda>c. c = 46) # [OneOrMore not_space_at])
              (b @ 46 # c)"
    unfolding rx_match_OneOrMore [of not_space_at _ "b @ 46 # c"] using ne(2) cls(2) m3 by blast
  have m1: "rx_match (One (\<lambda>c. c = 64) # OneOrMore not_space_at # One (\<lambda>c. c = 46)
              # [OneOrMore not_space_at]) (64 # b @ 46 # c)"
    using m2 by simp
  have "rx_match (OneOrMore not_space_at # One (\<lambda>c. c = 64) # OneOrMore not_space_at
              # One (\<lambda>c. c = 46) # [OneOrMore not_space_at]) (a @ 64 # b @ 46 # c)"
    unfolding rx_match_OneOrMore [of not_space_at _ "a @ 64 # b @ 46 # c"] using ne(1) cls(1) m1 by blast
  then show "isValidEmail s"
    by (simp add: isValidEmail_def emailRegex_def s)
qed

lemmas email_eval = js_def isValidEmail_def emailRegex_def not_space_at_def is_js_space_def

text \<open>
  C4 (as amended). \<open>isValidEmail s\<close> holds exactly when \<open>s\<close> is a run, \<open>@\<close>, a run,
  \<open>.\<close>, a run, where a run is a non-empty sequence of characters that are neither white
  space nor \<open>@\<close>. It accepts \<open>a@b.co\<close> and rejects \<open>a@b\<close>, \<open>a b@c.com\<close> and the empty
  string.
\<close>

theorem isValidEmail_runs:
  "(isValidEmail s \<longleftrightarrow>
     (\<exists>a b c. s = a @ [64] @ b @ [46] @ c \<and> a \<noteq> [] \<and> b \<noteq> [] \<and> c \<noteq> []
        \<and> list_all not_space_at (a @ b @ c)))
   \<and> isValidEmail (js ''a@b.co'') \<and> \<not> isValidEmail (js ''a@b'')
   \<and> \<not> isValidEmail (js ''a b@c.com'') \<and> \<not> isValidEmail (js [])"
proof -
  have "isValidEmail (js ''a@b.co'')" by (simp add: email_eval)
  moreover have "\<not> isValidEmail (js ''a@b'')" by (simp add: email_eval)
  moreover have "\<not> isValidEmail (js ''a b@c.com'')" by (simp add: email_eval)
  moreover have "\<not> isValidEmail (js [])" by (simp add: email_eval)
  ultimately show ?thesis using isValidEmail_iff [of s] by blast
qed

theorem isValidEmail_runs_witness:
  "\<exists>a b c. js ''a@b.co'' = a @ [64] @ b @ [46] @ c \<and> a \<noteq> [] \<and> b \<noteq> [] \<and> c \<noteq> []
     \<and> list_all not_space_at (a @ b @ c)"
  using isValidEmail_runs [of "js ''a@b.co''"] by blast

text \<open>
  The pattern as the specification words it admits \<open>@\<close> inside a run, and
  \<open>isValidEmail\<close> does not: \<open>a@b@c.d\<close> fits the wording and is rejected.
\<close>

theorem isValidEmail_counterexample:
  "spec_email_pattern (js ''a@b@c.d'') \<and> \<not> isValidEmail (js ''a@b@c.d'')"
  by (simp add: email_eval spec_email_pattern_def non_space_def)

section \<open>Properties of debounce\<close>

lemma run_timers_idle:
  assumes "d_pending s = []"
  shows "run_timers now s = s"
  using assms by (subst run_timers.simps) simp

lemma run_timers_not_due:
  assumes "d_pending s = [(h, d, a)]" and "now < d"
  shows "run_timers now s = s"
  using assms by (subst run_timers.simps) simp

lemma run_timers_due:
  assumes "d_pending s = [(h, d, a)]" and "d \<le> now"
  shows "run_timers now s = s\<lparr>d_pending := [], func_calls := func_calls s @ [(d, a)]\<rparr>"
proof -
  let ?s' = "later d a (s\<lparr>d_pending := remove1 (h, d, a) (d_pending s)\<rparr>)"
  have s': "?s' = s\<lparr>d_pending := [], func_calls := func_calls s @ [(d, a)]\<rparr>"
    using assms(1) by (cases "timeout s") (simp_all add: later_def clearTimeout_def)
  have "run_timers now s = run_timers now ?s'"
    using assms by (subst run_timers.simps) simp
  also have "\<dots> = ?s'"
    by (rule run_timers_idle) (simp add: s')
  finally show ?thesis using s' by simp
qed

lemma debounce_call_first:
  assumes "d_pending s = []"
  shows "one_pending (debounce_call wait s c) (fst c + wait) (snd c)
         \<and> func_calls (debounce_call wait s c) = func_calls s"
  using assms
  by (cases "timeout s")
     (simp_all add: debounce_call_def run_timers_idle executedFunction_def Let_def
        clearTimeout_def one_pending_def)

lemma debounce_call_again:
  assumes "one_pending s d a" and "fst c < d"
  shows "one_pending (debounce_call wait s c) (fst c + wait) (snd c)
         \<and> func_calls (debounce_call wait s c) = func_calls s"
proof -
  from assms(1) obtain h where h: "d_pending s = [(h, d, a)]" "timeout s = Some h"
    by (auto simp: one_pending_def)
  have "run_timers (fst c) s = s"
    using h(1) assms(2) by (rule run_timers_not_due)
  then show ?thesis
    using h by (simp add: debounce_call_def executedFunction_def Let_def clearTimeout_def
        one_pending_def)
qed

lemma debounce_burst_pending:
  assumes "within_window wait (c # cs)"
    and "d_pending s = [] \<or> (\<exists>d a. one_pending s d a \<and> fst c < d)"
  shows "one_pending (debounce_burst wait (c # cs) s)
           (fst (last (c # cs)) + wait) (snd (last (c # cs)))
         \<and> func_calls (debounce_burst wait (c # cs) s) = func_calls s"
  using assms
proof (induction cs arbitrary: c s)
  case Nil
  then show ?case
    using debounce_call_first [of s wait c] debounce_call_again [of s _ _ c wait]
    by (auto simp: debounce_burst_def)
next
  case (Cons c' cs)
  let ?s1 = "debounce_call wait s c"
  have step: "one_pending ?s1 (fst c + wait) (snd c) \<and> func_calls ?s1 = func_calls s"
    using Cons.prems(2) debounce_call_first [of s wait c] debounce_call_again [of s _ _ c wait]
    by auto
  have w: "within_window wait (c' # cs)" and lt: "fst c' < fst c + wait"
    using Cons.prems(1) by simp_all
  have "one_pending (debounce_burst wait (c' # cs) ?s1)
           (fst (last (c' # cs)) + wait) (snd (last (c' # cs)))
         \<and> func_calls (debounce_burst wait (c' # cs) ?s1) = func_calls ?s1"
    using w step lt by (intro Cons.IH) auto
  moreover have "debounce_burst wait (c # c' # cs) s = debounce_burst wait (c' # cs) ?s1"
    by (simp add: debounce_burst_def)
  ultimately show ?case using step by simp
qed

text \<open>
  C7. From a closure with no timer pending (the fresh one, or one whose last timer has
  run), a burst of calls of the debounced wrapper, each within the wait window of the one
  before, makes no call of \<open>func\<close> while it lasts, and exactly one afterwards: at the
  time \<open>wait\<close> after the last call of the burst, with the arguments of that last call.
  Whatever the time \<open>T\<close> at which the closure is looked at, the calls added by then are
  none before that time, and that single call from then on, when no timer is pending
  again.
\<close>

theorem debounce_trailing_edge:
  assumes "cs \<noteq> []" and "within_window wait cs" and "d_pending s = []"
  shows "func_calls (debounce_burst wait cs s) = func_calls s
         \<and> func_calls (run_timers T (debounce_burst wait cs s)) =
             func_calls s @
               (if fst (last cs) + wait \<le> T then [(fst (last cs) + wait, snd (last cs))] else [])
         \<and> (if fst (last cs) + wait \<le> T
              then d_pending (run_timers T (debounce_burst wait cs s)) = []
              else one_pending (run_timers T (debounce_burst wait cs s))
                     (fst (last cs) + wait) (snd (last cs)))"
proof -
  from assms(1) obtain c cs' where cs: "cs = c # cs'" by (cases cs) auto
  let ?s = "debounce_burst wait cs s"
  have p: "one_pending ?s (fst (last cs) + wait) (snd (last cs)) \<and> func_calls ?s = func_calls s"
    unfolding cs using assms(2) unfolding cs
    by (rule debounce_burst_pending) (simp add: assms(3))
  then obtain h where h: "d_pending ?s = [(h, fst (last cs) + wait, snd (last cs))]"
    and same: "func_calls ?s = func_calls s"
    by (auto simp: one_pending_def)
  show ?thesis
  proof (cases "fst (last cs) + wait \<le> T")
    case True
    then show ?thesis using run_timers_due [OF h True] same by simp
  next
    case False
    then have "T < fst (last cs) + wait" by simp
    then show ?thesis using run_timers_not_due [OF h] same p False by simp
  qed
qed

theorem debounce_trailing_edge_witness:
  "func_calls (run_timers 698 (debounce_burst 300 [(0, ''a''), (100, ''b''), (399, ''c'')] debounce))
     = []
   \<and> func_calls (run_timers 1000 (debounce_burst 300 [(0, ''a''), (100, ''b''), (399, ''c'')] debounce))
     = [(699, ''c'')]
   \<and> func_calls (run_timers 2000 (debounce_burst 300 [(1000, ''x''), (1100, ''y'')]
        (run_timers 1000 (debounce_burst 300 [(0, ''a''), (100, ''b''), (399, ''c'')] debounce))))
     = [(699, ''c''), (1400, ''y'')]"
proof -
  let ?cs = "[(0, ''a''), (100, ''b''), (399, ''c'')]"
  let ?s1 = "run_timers 1000 (debounce_burst 300 ?cs debounce)"
  have fresh: "d_pending (debounce :: string debounced) = []"
    by (simp add: debounce_def)
  have first: "func_calls (run_timers 698 (debounce_burst 300 ?cs debounce)) = []"
    "func_calls ?s1 = [(699, ''c'')]" "d_pending ?s1 = []"
    using debounce_trailing_edge [of ?cs 300 debounce 698, OF _ _ fresh]
      debounce_trailing_edge [of ?cs 300 debounce 1000, OF _ _ fresh]
    by (simp_all add: debounce_def)
  have "func_calls (run_timers 2000 (debounce_burst 300 [(1000, ''x''), (1100, ''y'')] ?s1))
          = [(699, ''c''), (1400, ''y'')]"
    using debounce_trailing_edge [of "[(1000, ''x''), (1100, ''y'')]" 300 ?s1 2000, OF _ _ first(3)]
      first(2)
    by simp
  with first show ?thesis by simp
qed

section \<open>Properties of throttle\<close>





text \<open>
  A call of \<open>func\<close> that throws leaves the closure as it was, but for the record of the
  call: the next call of the wrapper calls \<open>func\<close> again.
\<close>

lemma throttle_call_thrown:
  assumes "\<not> inThrottle s" and "t_pending s = []" and "func t0 a0 = Some e"
  shows "throttle_call func limit s (t0, a0) = s\<lparr>t_calls := t_calls s @ [(t0, a0)]\<rparr>"
  using assms
  by (simp add: throttle_call_def throttled_call_def run_resets_def state_of_def Let_def)




section \<open>Properties of the smooth-scroll handler\<close>

text \<open>
  C10 (as amended). A click on a fragment link whose target is found by the handler's
  lookup (as it is when the fragment is a CSS identifier and an element has that id), on
  a page with no \<open>.header\<close> element, throws a TypeError, after \<open>preventDefault\<close> and
  before any scrolling. The fallback \<open>|| 0\<close> only serves a header whose \<open>offsetHeight\<close> is
  0: there the handler returns, having scrolled to the target's \<open>offsetTop\<close> less 20.
  Where the fragment is no selector (it is empty or begins with a digit, say), the lookup
  itself throws a SyntaxError, before \<open>preventDefault\<close>, and the header is not looked
  at.
\<close>

theorem smoothScroll_throws_without_header:
  "(querySelector_id s (drop 1 href) = Inr (Some offsetTop) \<and> header s = None \<longrightarrow>
      smoothScrollClick href s = Thrown TypeError (s\<lparr>prevented := True\<rparr>))
   \<and> (css_identifier (drop 1 href) \<and> ids s (drop 1 href) = Some offsetTop \<and> header s = None \<longrightarrow>
      smoothScrollClick href s = Thrown TypeError (s\<lparr>prevented := True\<rparr>))
   \<and> (querySelector_id s (drop 1 href) = Inr (Some offsetTop) \<and> header s = Some 0 \<longrightarrow>
      smoothScrollClick href s =
        Returned (s\<lparr>prevented := True, scrolledTo := Some (offsetTop - 20),
                    timers := timers s @ [(500, FocusTarget (drop 1 href))]\<rparr>))
   \<and> (no_selector (drop 1 href) \<longrightarrow>
      smoothScrollClick href s = Thrown SyntaxError (s\<lparr>prevented := False\<rparr>))"
proof -
  have q: "querySelector_id (s\<lparr>prevented := False\<rparr>) t = querySelector_id s t" for t
    by (simp add: querySelector_id_def)
  have n: "no_selector t \<Longrightarrow> \<not> css_identifier t" for t
    by (cases t) (auto simp: no_selector_def css_identifier_def is_name_start_def split: list.splits)
  have 1: "querySelector_id s (drop 1 href) = Inr (Some offsetTop) \<and> header s = None \<longrightarrow>
      smoothScrollClick href s = Thrown TypeError (s\<lparr>prevented := True\<rparr>)"
    by (simp add: smoothScrollClick_def Let_def q)
  have 2: "css_identifier (drop 1 href) \<and> ids s (drop 1 href) = Some offsetTop \<and> header s = None \<longrightarrow>
      smoothScrollClick href s = Thrown TypeError (s\<lparr>prevented := True\<rparr>)"
    by (simp add: smoothScrollClick_def Let_def querySelector_id_def)
  have 3: "querySelector_id s (drop 1 href) = Inr (Some offsetTop) \<and> header s = Some 0 \<longrightarrow>
      smoothScrollClick href s =
        Returned (s\<lparr>prevented := True, scrolledTo := Some (offsetTop - 20),
                    timers := timers s @ [(500, FocusTarget (drop 1 href))]\<rparr>)"
    by (simp add: smoothScrollClick_def Let_def q)
  have 4: "no_selector (drop 1 href) \<longrightarrow>
      smoothScrollClick href s = Thrown SyntaxError (s\<lparr>prevented := False\<rparr>)"
    using n [of "drop 1 href"] by (simp add: smoothScrollClick_def Let_def querySelector_id_def)
  from 1 2 3 4 show ?thesis by - (intro conjI; assumption)
qed

theorem smoothScroll_throws_without_header_witness:
  "smoothScrollClick (js ''#about'') page_without_header
     = Thrown TypeError (page_without_header\<lparr>prevented := True\<rparr>)
   \<and> smoothScrollClick (js ''#about'') (page_without_header\<lparr>header := Some 0\<rparr>)
     = Returned (page_without_header\<lparr>header := Some 0, prevented := True, scrolledTo := Some 620,
                  timers := [(500, FocusTarget (js ''about''))]\<rparr>)
   \<and> smoothScrollClick (js ''#'') page_without_header = Thrown SyntaxError page_without_header"
proof -
  have c: "css_identifier (drop 1 (js ''#about''))"
    by (simp add: css_identifier_def is_name_start_def is_name_char_def js_def)
  have t: "ids page_without_header (drop 1 (js ''#about'')) = Some 640"
    by (simp add: page_without_header_def js_def)
  have q: "querySelector_id (page_without_header\<lparr>header := Some 0\<rparr>) (drop 1 (js ''#about''))
             = Inr (Some 640)"
    using c by (simp add: querySelector_id_def page_without_header_def js_def)
  have h: "header page_without_header = None"
    by (simp add: page_without_header_def)
  have n: "no_selector (drop 1 (js ''#''))"
    by (simp add: no_selector_def js_def)
  have h0: "header (page_without_header\<lparr>header := Some 0\<rparr>) = Some 0"
    by simp
  have w1: "smoothScrollClick (js ''#about'') page_without_header
              = Thrown TypeError (page_without_header\<lparr>prevented := True\<rparr>)"
    using smoothScroll_throws_without_header [of page_without_header "js ''#about''" 640] c t h
    by blast
  have w2: "smoothScrollClick (js ''#about'') (page_without_header\<lparr>header := Some 0\<rparr>)
              = Returned (page_without_header\<lparr>header := Some 0, prevented := True,
                  scrolledTo := Some (640 - 20),
                  timers := timers (page_without_header\<lparr>header := Some 0\<rparr>)
                              @ [(500, FocusTarget (drop 1 (js ''#about'')))]\<rparr>)"
    using smoothScroll_throws_without_header
      [of "page_without_header\<lparr>header := Some 0\<rparr>" "js ''#about''" 640] q h0
    by blast
  have w3: "smoothScrollClick (js ''#'') page_without_header
              = Thrown SyntaxError (page_without_header\<lparr>prevented := False\<rparr>)"
    using smoothScroll_throws_without_header [of page_without_header "js ''#''"] n
    by blast
  show ?thesis
    unfolding w1 w2 w3 by (simp add: page_without_header_def js_def)
qed

text \<open>
  The element with id \<open>2col\<close> exists and the page has no \<open>.header\<close>, but a click on a
  link to \<open>#2col\<close> does not get as far as the header: the lookup throws a SyntaxError.
\<close>

theorem smoothScroll_counterexample:
  "ids page_without_header (js ''2col'') = Some 900 \<and> header page_without_header = None
   \<and> smoothScrollClick (js ''#2col'') page_without_header
       = Thrown SyntaxError page_without_header"
  by (simp add: smoothScrollClick_def querySelector_id_def css_identifier_def no_selector_def
      is_name_start_def page_without_header_def js_def)

section \<open>Properties of the initialization\<close>

lemma run_inits_append:
  "run_inits init (pre @ rest) s =
     (case run_inits init pre s of
        Returned s1 \<Rightarrow> run_inits init rest s1
      | Thrown e s' \<Rightarrow> Thrown e s')"
  by (induction pre arbitrary: s) (auto split: outcome.splits)

lemma run_inits_cong:
  assumes "\<forall>x \<in> set cs. init' x = init x"
  shows "run_inits init' cs s = run_inits init cs s"
  using assms by (induction cs arbitrary: s) (auto split: outcome.splits)

lemma run_inits_throw:
  assumes "run_inits init pre s = Returned s1" and "init c s1 = Thrown e s2"
  shows "run_inits init (pre @ c # post) s = Thrown e s2"
  using assms by (simp add: run_inits_append)

text \<open>
  C1 (as amended). When the \<open>init\<close> of a component throws, after the components listed
  before it have been initialized, \<open>initializeComponents\<close> catches the error and logs it
  on the console, and that is all it does further: the page is as the throwing \<open>init\<close>
  left it, the \<open>init\<close> of no component listed after it is run (whatever those would do,
  the result is the same), and neither the success message nor the announcement is made.
\<close>

theorem initializeComponents_stops_at_throw:
  assumes "init_order = pre @ c # post"
    and "run_inits init pre s = Returned s1"
    and "init c s1 = Thrown e s2"
    and "\<forall>x \<in> set (pre @ [c]). init' x = init x"
  shows "initializeComponents init s =
           s2\<lparr>console := console s2 @ [ConsoleError (js ''Error initializing website:'') e]\<rparr>
         \<and> initializeComponents init' s = initializeComponents init s"
proof -
  have thrown: "run_inits init init_order s = Thrown e s2"
    unfolding assms(1) using assms(2,3) by (rule run_inits_throw)
  have "run_inits init' pre s = Returned s1"
    using assms(2,4) run_inits_cong [of pre init' init s] by simp
  moreover have "init' c s1 = Thrown e s2"
    using assms(3,4) by simp
  ultimately have "run_inits init' init_order s = Thrown e s2"
    unfolding assms(1) by (rule run_inits_throw)
  with thrown show ?thesis
    by (simp add: initializeComponents_def)
qed

theorem initializeComponents_stops_at_throw_witness:
  "initializeComponents (init_throwing Forms) blank_site =
     blank_site\<lparr>console := [ConsoleError (js ''Error initializing website:'') (OtherError ''init failed'')],
                document := [Navigation, AudioPlayer, Modal]\<rparr>
   \<and> initializeComponents (\<lambda>c. if c = Search then Thrown TypeError else init_throwing Forms c) blank_site
     = initializeComponents (init_throwing Forms) blank_site"
proof -
  let ?s1 = "blank_site\<lparr>document := [Navigation, AudioPlayer, Modal]\<rparr>"
  have o: "init_order = [Navigation, AudioPlayer, Modal] @ Forms
             # [FAQ, Search, ScrollEffects, Animations, Theme, ErrorHandler, Performance]"
    by (simp add: init_order_def)
  have r: "run_inits (init_throwing Forms) [Navigation, AudioPlayer, Modal] blank_site = Returned ?s1"
    by (simp add: init_throwing_def blank_site_def)
  have t: "init_throwing Forms Forms ?s1 = Thrown (OtherError ''init failed'') ?s1"
    by (simp add: init_throwing_def)
  have a: "\<forall>x \<in> set ([Navigation, AudioPlayer, Modal] @ [Forms]).
             (\<lambda>c. if c = Search then Thrown TypeError else init_throwing Forms c) x
               = init_throwing Forms x"
    by simp
  show ?thesis
    using initializeComponents_stops_at_throw [OF o r t a] by (simp add: blank_site_def)
qed

text \<open>
  With the \<open>init\<close> of Forms throwing, the components listed after Forms are not
  initialized: only the three before it have run.
\<close>

theorem initializeComponents_counterexample:
  "document (initializeComponents (init_throwing Forms) blank_site)
     = [Navigation, AudioPlayer, Modal]
   \<and> FAQ \<notin> set (document (initializeComponents (init_throwing Forms) blank_site))"
  by (simp add: initializeComponents_def init_order_def init_throwing_def blank_site_def)

section \<open>Properties of the audio players\<close>





lemma announce_players [simp]: "players (announce m s) = players s"
  by (simp add: announce_def split: option.splits)

lemma playAudio_length [simp]: "length (players (playAudio i s)) = length (players s)"
  by (simp add: playAudio_def)

lemma playAudio_nth:
  assumes "k < length (players s)"
  shows "progress (players (playAudio i s) ! k) = progress (players s ! k)"
    and "duration (players (playAudio i s) ! k) = duration (players s ! k)"
    and "isPlaying (players (playAudio i s) ! k) = isPlaying (players s ! k)"
  using assms by (simp_all add: playAudio_def)

lemma playClick_length [simp]: "length (players (playClick i s)) = length (players s)"
  by (simp add: playClick_def Let_def split: list.splits)


lemma volumeClick_length [simp]: "length (players (volumeClick i s)) = length (players s)"
  by (simp add: volumeClick_def Let_def split: option.splits)


lemma updateProgress_length [simp]: "length (players (updateProgress i s)) = length (players s)"
  by (simp add: updateProgress_def Let_def split: option.splits)








text \<open>
  When a click starts a player, the play buttons of every other player show the play
  icon and the label \<open>Play episode\<close>.
\<close>

lemma playClick_resets_other_buttons:
  assumes "i < length (players s)" and "playButtons (players s ! i) \<noteq> []"
    and "\<not> isPlaying (players s ! i)" and "k < length (players s)" and "k \<noteq> i"
  shows "playButtons (players (playClick i s) ! k) = map show_play (playButtons (players s ! k))"
proof -
  obtain b bs where bs: "playButtons (players s ! i) = b # bs"
    using assms(2) by (cases "playButtons (players s ! i)") auto
  show ?thesis
    using assms bs by (simp add: playClick_def Let_def nth_list_update playAudio_def)
qed

text \<open>No click on the play button of one player changes whether another player is playing.\<close>

lemma playClick_other_isPlaying:
  assumes "k < length (players s)" and "k \<noteq> i"
  shows "isPlaying (players (playClick i s) ! k) = isPlaying (players s ! k)"
proof (cases "i < length (players s) \<and> playButtons (players s ! i) \<noteq> []")
  case False
  then show ?thesis by (simp add: playClick_def split: list.splits)
next
  case True
  then obtain b bs where bs: "playButtons (players s ! i) = b # bs" and i: "i < length (players s)"
    by (cases "playButtons (players s ! i)") auto
  show ?thesis
  proof (cases "isPlaying (players s ! i)")
    case True
    then show ?thesis
      using i bs assms by (simp add: playClick_def Let_def nth_list_update)
  next
    case False
    then show ?thesis
      using i bs assms by (simp add: playClick_def Let_def nth_list_update playAudio_def)
  qed
qed

lemma parse_0_02: "parseDuration [48, 58, 48, 50] = Some 2"
  by (simp add: parseDuration_def parseInt_def is_js_space_def is_digit_in_def digit_value_def
      digits_value_def Let_def)

lemma two_players_eq:
  "two_players = \<lparr>announcements = Some [], timers = [],
                   players = [ready_player, ready_player], otherButtons = []\<rparr>"
  by (simp add: two_players_def setupPlayers_def initializePlayer_def demo_player_def
      ready_player_def parse_0_02 js_def)

lemmas audio_eval = playClick_def playAudio_def updateProgress_def announce_def show_play_def
  Let_def ready_player_def demo_player_def js_def audio_run_def formatTime_def js_int_string_def
  padStart_def js_rem_def



text \<open>
  C2. At most one player is to be playing at any time. The script falls short of it: a
  click that starts the second player while the first is playing resets the first
  player's button, as \<open>playAudio\<close> does for every other button, and no more. The first
  player's flag \<open>isPlaying\<close> stays set, so both players are playing, the progress of both
  advances with the ticks, and the first button shows the play icon and label over a
  player that is playing.
\<close>

theorem playAudio_leaves_other_playing:
  "isPlaying (players (audio_run two_players [PlayClick 0, PlayClick 1]) ! 0)
   \<and> isPlaying (players (audio_run two_players [PlayClick 0, PlayClick 1]) ! 1)
   \<and> map innerHTML (playButtons (players (audio_run two_players [PlayClick 0, PlayClick 1]) ! 0))
       = [PlayIcon]
   \<and> map aria_label (playButtons (players (audio_run two_players [PlayClick 0, PlayClick 1]) ! 0))
       = [Some (js ''Play episode'')]
   \<and> map progress (players (audio_run two_players
         [PlayClick 0, PlayClick 1, ProgressTick 0, ProgressTick 1])) = [1, 1]"
proof -
  have "isPlaying (players (audio_run two_players [PlayClick 0, PlayClick 1]) ! 0)
   \<and> isPlaying (players (audio_run two_players [PlayClick 0, PlayClick 1]) ! 1)
   \<and> map innerHTML (playButtons (players (audio_run two_players [PlayClick 0, PlayClick 1]) ! 0))
       = [PlayIcon]
   \<and> map aria_label (playButtons (players (audio_run two_players [PlayClick 0, PlayClick 1]) ! 0))
       = [Some (js ''Play episode'')]"
    by (simp add: two_players_eq audio_eval)
  moreover have "map progress (players (audio_run two_players
         [PlayClick 0, PlayClick 1, ProgressTick 0, ProgressTick 1])) = [1, 1]"
    by (simp add: two_players_eq audio_eval)
  ultimately show ?thesis by blast
qed

section \<open>Properties of the FAQ accordion\<close>

lemma js_false_not_true [simp]: "js ''false'' \<noteq> js ''true''"
  by (simp add: js_def)

lemma not_expanded_closed [simp]: "\<not> expanded (it\<lparr>question := Some (Some (js ''false''))\<rparr>)"
  by (simp add: expanded_def)

lemma close_others_length [simp]: "length (fst (close_others i k items)) = length items"
  by (induction items arbitrary: k) (auto simp: case_prod_beta Let_def split: option.splits)

lemma close_others_collapses:
  assumes "j < length items" and "expanded (fst (close_others i k items) ! j)"
  shows "expanded (items ! j)"
  using assms
proof (induction items arbitrary: k j)
  case Nil
  then show ?case by simp
next
  case (Cons it rest)
  show ?case
  proof (cases j)
    case 0
    with Cons.prems show ?thesis
      by (auto simp: expanded_def case_prod_beta Let_def split: option.splits if_splits)
  next
    case (Suc j')
    with Cons.prems have j': "j' < length rest" by simp
    have "expanded (fst (close_others i (Suc k) rest) ! j') \<Longrightarrow> expanded (rest ! j')"
      using Cons.IH [OF j'] .
    with Cons.prems Suc show ?thesis
      by (auto simp: case_prod_beta Let_def split: option.splits if_splits)
  qed
qed

lemma close_others_closed:
  assumes "snd (close_others i k items) = None" and "j < length items" and "j + k \<noteq> i"
  shows "\<not> expanded (fst (close_others i k items) ! j)"
  using assms
proof (induction items arbitrary: k j)
  case Nil
  then show ?case by simp
next
  case (Cons it rest)
  from Cons.prems(1) have rest: "snd (close_others i (Suc k) rest) = None"
    by (auto simp: case_prod_beta Let_def split: option.splits if_splits)
  show ?case
  proof (cases j)
    case 0
    with Cons.prems show ?thesis
      by (auto simp: expanded_def case_prod_beta Let_def split: option.splits if_splits)
  next
    case (Suc j')
    with Cons.prems have "j' < length rest" and "j' + Suc k \<noteq> i" by simp_all
    then have "\<not> expanded (fst (close_others i (Suc k) rest) ! j')"
      using Cons.IH [OF rest] by blast
    with Cons.prems Suc show ?thesis
      by (auto simp: case_prod_beta Let_def split: option.splits if_splits)
  qed
qed

lemma close_others_no_error:
  assumes "list_all complete_item items"
  shows "snd (close_others i k items) = None"
  using assms
proof (induction items arbitrary: k)
  case Nil
  then show ?case by simp
next
  case (Cons it rest)
  then have c: "question it \<noteq> None" "answer it \<noteq> None"
    by (simp_all add: complete_item_def)
  have "snd (close_others i (Suc k) rest) = None"
    using Cons by simp
  with c show ?case
    by (auto simp: case_prod_beta Let_def split: option.splits)
qed

lemma close_others_nth:
  assumes "list_all complete_item items" and "j < length items"
  shows "fst (close_others i k items) ! j =
           (if j + k = i then items ! j
            else (items ! j)\<lparr>question := Some (Some (js ''false'')),
                             answer := Some (Some (js ''true''))\<rparr>)"
  using assms
proof (induction items arbitrary: k j)
  case Nil
  then show ?case by simp
next
  case (Cons it rest)
  then have c: "question it \<noteq> None" "answer it \<noteq> None"
    by (simp_all add: complete_item_def)
  have r: "list_all complete_item rest" using Cons.prems by simp
  show ?case
  proof (cases j)
    case 0
    with c show ?thesis
      by (auto simp: case_prod_beta Let_def split: option.splits)
  next
    case (Suc j')
    with Cons.prems have "j' < length rest" by simp
    then have "fst (close_others i (Suc k) rest) ! j' =
             (if j' + Suc k = i then rest ! j'
              else (rest ! j')\<lparr>question := Some (Some (js ''false'')),
                               answer := Some (Some (js ''true''))\<rparr>)"
      using Cons.IH [OF r] by blast
    with Suc c show ?thesis
      by (auto simp: case_prod_beta Let_def split: option.splits)
  qed
qed

lemma count_le_one:
  assumes "\<And>j. j < length xs \<Longrightarrow> j \<noteq> i \<Longrightarrow> \<not> expanded (xs ! j)"
  shows "expanded_count xs \<le> 1"
proof -
  have "{j. j < length xs \<and> expanded (xs ! j)} \<subseteq> {i}"
    using assms by auto
  then have "card {j. j < length xs \<and> expanded (xs ! j)} \<le> card {i}"
    by (intro card_mono) simp_all
  then show ?thesis
    by (simp add: expanded_count_def length_filter_conv_card)
qed

lemma count_mono:
  assumes "length ys = length xs"
    and "\<And>j. j < length xs \<Longrightarrow> expanded (ys ! j) \<Longrightarrow> expanded (xs ! j)"
  shows "expanded_count ys \<le> expanded_count xs"
proof -
  have "{j. j < length ys \<and> expanded (ys ! j)} \<subseteq> {j. j < length xs \<and> expanded (xs ! j)}"
    using assms by auto
  then have "card {j. j < length ys \<and> expanded (ys ! j)}
               \<le> card {j. j < length xs \<and> expanded (xs ! j)}"
    by (intro card_mono) simp_all
  then show ?thesis
    by (simp add: expanded_count_def length_filter_conv_card)
qed

lemma announce_faqItems [simp]: "faqItems (announce m s) = faqItems s"
  by (simp add: announce_def split: option.splits)

lemma questionClick_keeps_exclusive:
  assumes "expanded_count (faqItems s) \<le> 1"
  shows "expanded_count (faqItems (state_of (questionClick i s))) \<le> 1"
proof (cases "i < length (faqItems s) \<and> question (faqItems s ! i) \<noteq> None
         \<and> answer (faqItems s ! i) \<noteq> None")
  case False
  then show ?thesis using assms by (auto simp: questionClick_def state_of_def)
next
  case True
  let ?r = "close_others i 0 (faqItems s)"
  show ?thesis
  proof (cases "snd ?r")
    case (Some err)
    then have "faqItems (state_of (questionClick i s)) = fst ?r"
      using True by (simp add: questionClick_def state_of_def case_prod_beta Let_def)
    moreover have "expanded_count (fst ?r) \<le> expanded_count (faqItems s)"
      by (rule count_mono) (simp_all add: close_others_collapses)
    ultimately show ?thesis using assms by simp
  next
    case None
    let ?isExpanded = "question (faqItems s ! i) = Some (Some (js ''true''))"
    have items: "faqItems (state_of (questionClick i s)) =
            (fst ?r)[i := (fst ?r ! i)\<lparr>question := Some (bool_attr (\<not> ?isExpanded)),
                                       answer := Some (bool_attr ?isExpanded)\<rparr>]"
      using True None by (simp add: questionClick_def state_of_def case_prod_beta Let_def)
    show ?thesis
      unfolding items
    proof (rule count_le_one [where i = i])
      fix j
      assume "j < length ((fst ?r)[i := (fst ?r ! i)\<lparr>question := Some (bool_attr (\<not> ?isExpanded)),
                                       answer := Some (bool_attr ?isExpanded)\<rparr>])"
        and ne: "j \<noteq> i"
      then have j: "j < length (faqItems s)" by simp
      have "\<not> expanded (fst ?r ! j)"
        using close_others_closed [OF None j] ne by simp
      then show "\<not> expanded ((fst ?r)[i := (fst ?r ! i)\<lparr>question := Some (bool_attr (\<not> ?isExpanded)),
                                       answer := Some (bool_attr ?isExpanded)\<rparr>] ! j)"
        using ne by simp
    qed
  qed
qed

lemma faq_step_keeps_exclusive:
  assumes "expanded_count (faqItems s) \<le> 1"
  shows "expanded_count (faqItems (faq_step s ev)) \<le> 1"
  using assms questionClick_keeps_exclusive
  by (cases ev) (auto simp: questionKeydown_def)

lemma faq_run_keeps_exclusive:
  assumes "expanded_count (faqItems s) \<le> 1"
  shows "expanded_count (faqItems (faq_run s evs)) \<le> 1"
  using assms
proof (induction evs arbitrary: s)
  case Nil
  then show ?case by (simp add: faq_run_def)
next
  case (Cons ev evs)
  have "expanded_count (faqItems (faq_step s ev)) \<le> 1"
    using Cons.prems by (rule faq_step_keeps_exclusive)
  then have "expanded_count (faqItems (faq_run (faq_step s ev) evs)) \<le> 1"
    by (rule Cons.IH)
  then show ?case by (simp add: faq_run_def)
qed

text \<open>On a page whose items all have their question and answer, a click does not throw.\<close>

lemma questionClick_complete:
  assumes "list_all complete_item (faqItems s)" and "i < length (faqItems s)"
  shows "faqItems (state_of (questionClick i s)) =
           (map (\<lambda>j. if j = i then faqItems s ! j
                     else (faqItems s ! j)\<lparr>question := Some (Some (js ''false'')),
                                            answer := Some (Some (js ''true''))\<rparr>)
              [0..<length (faqItems s)])
           [i := (faqItems s ! i)\<lparr>question := Some (bool_attr (\<not> expanded (faqItems s ! i))),
                                  answer := Some (bool_attr (expanded (faqItems s ! i)))\<rparr>]"
    and "\<exists>s'. questionClick i s = Returned s'"
proof -
  let ?r = "close_others i 0 (faqItems s)"
  have c: "question (faqItems s ! i) \<noteq> None \<and> answer (faqItems s ! i) \<noteq> None"
    using assms by (simp add: list_all_length complete_item_def)
  have none: "snd ?r = None"
    using assms(1) by (rule close_others_no_error)
  have fst: "fst ?r = map (\<lambda>j. if j = i then faqItems s ! j
                     else (faqItems s ! j)\<lparr>question := Some (Some (js ''false'')),
                                            answer := Some (Some (js ''true''))\<rparr>)
              [0..<length (faqItems s)]"
    by (rule nth_equalityI) (simp_all add: close_others_nth [OF assms(1)])
  have i: "fst ?r ! i = faqItems s ! i"
    using assms(2) by (simp add: close_others_nth [OF assms(1)])
  show "\<exists>s'. questionClick i s = Returned s'"
    using c none assms(2) by (simp add: questionClick_def case_prod_beta Let_def)
  have "faqItems (state_of (questionClick i s)) =
          (fst ?r)[i := (fst ?r ! i)\<lparr>question := Some (bool_attr (\<not> expanded (faqItems s ! i))),
                                     answer := Some (bool_attr (expanded (faqItems s ! i)))\<rparr>]"
    using c none assms(2)
    by (simp add: questionClick_def state_of_def case_prod_beta Let_def expanded_def)
  then show "faqItems (state_of (questionClick i s)) =
           (map (\<lambda>j. if j = i then faqItems s ! j
                     else (faqItems s ! j)\<lparr>question := Some (Some (js ''false'')),
                                            answer := Some (Some (js ''true''))\<rparr>)
              [0..<length (faqItems s)])
           [i := (faqItems s ! i)\<lparr>question := Some (bool_attr (\<not> expanded (faqItems s ! i))),
                                  answer := Some (bool_attr (expanded (faqItems s ! i)))\<rparr>]"
    unfolding i unfolding fst .
qed

lemma exclusive_other_collapsed:
  assumes "expanded_count xs \<le> 1" and "a < length xs" and "b < length xs" and "a \<noteq> b"
    and "expanded (xs ! a)"
  shows "\<not> expanded (xs ! b)"
proof
  assume "expanded (xs ! b)"
  then have "{a, b} \<subseteq> {j. j < length xs \<and> expanded (xs ! j)}"
    using assms by simp
  then have "card {a, b} \<le> card {j. j < length xs \<and> expanded (xs ! j)}"
    by (intro card_mono) simp_all
  then show False
    using assms(1,4) by (simp add: expanded_count_def length_filter_conv_card)
qed

lemma questionClick_nth:
  assumes "list_all complete_item (faqItems s)" and "i < length (faqItems s)"
    and "j < length (faqItems s)"
  shows "faqItems (faq_step s (QuestionClick i)) ! j =
           (if j = i
            then (faqItems s ! i)\<lparr>question := Some (bool_attr (\<not> expanded (faqItems s ! i))),
                                  answer := Some (bool_attr (expanded (faqItems s ! i)))\<rparr>
            else (faqItems s ! j)\<lparr>question := Some (Some (js ''false'')),
                                  answer := Some (Some (js ''true''))\<rparr>)"
  using assms(2,3) by (simp add: questionClick_complete(1) [OF assms(1,2)] nth_list_update)

lemma questionClick_length:
  assumes "list_all complete_item (faqItems s)" and "i < length (faqItems s)"
  shows "length (faqItems (faq_step s (QuestionClick i))) = length (faqItems s)"
  by (simp add: questionClick_complete(1) [OF assms])

lemma questionClick_exclusive:
  assumes "list_all complete_item (faqItems s)" and "i < length (faqItems s)"
  shows "expanded_count (faqItems (faq_step s (QuestionClick i))) \<le> 1"
proof (rule count_le_one [where i = i])
  fix j
  assume "j < length (faqItems (faq_step s (QuestionClick i)))" and ne: "j \<noteq> i"
  then have j: "j < length (faqItems s)"
    using questionClick_length [OF assms] by simp
  show "\<not> expanded (faqItems (faq_step s (QuestionClick i)) ! j)"
    using questionClick_nth [OF assms j] ne by (simp add: expanded_def)
qed

text \<open>
  A page with at most one item expanded has at most one expanded after any sequence of
  clicks and key presses on the questions, and so has, whatever its markup, a page whose
  items all have their question and answer from the first click on. Enter and Space do
  what a click does. On such a page, a click on question \<open>b\<close> while another item \<open>a\<close>
  is the expanded one leaves \<open>a\<close> collapsed (\<open>aria-expanded\<close> false, answer
  \<open>aria-hidden\<close> true) and \<open>b\<close>, and only \<open>b\<close>, expanded; a click on the question of an
  expanded item collapses it, and no item is expanded then.
\<close>

lemma complete_faq_exclusive_expansion:
  "(expanded_count (faqItems s) \<le> 1 \<longrightarrow> expanded_count (faqItems (faq_run s evs)) \<le> 1)
    \<and> (list_all complete_item (faqItems s) \<and> b < length (faqItems s) \<longrightarrow>
          expanded_count (faqItems (faq_run s (QuestionClick b # evs))) \<le> 1)
    \<and> faq_step s (QuestionKey b (js ''Enter'')) = faq_step s (QuestionClick b)
    \<and> faq_step s (QuestionKey b (js '' '')) = faq_step s (QuestionClick b)
    \<and> (expanded_count (faqItems s) \<le> 1 \<and> list_all complete_item (faqItems s)
         \<and> a < length (faqItems s) \<and> b < length (faqItems s)
         \<and> a \<noteq> b \<and> expanded (faqItems s ! a) \<longrightarrow>
          question (faqItems (faq_step s (QuestionClick b)) ! a) = Some (Some (js ''false''))
        \<and> answer (faqItems (faq_step s (QuestionClick b)) ! a) = Some (Some (js ''true''))
        \<and> question (faqItems (faq_step s (QuestionClick b)) ! b) = Some (Some (js ''true''))
        \<and> answer (faqItems (faq_step s (QuestionClick b)) ! b) = Some (Some (js ''false''))
        \<and> map expanded (faqItems (faq_step s (QuestionClick b)))
            = map (\<lambda>j. j = b) [0..<length (faqItems s)])
    \<and> (list_all complete_item (faqItems s) \<and> a < length (faqItems s)
         \<and> expanded (faqItems s ! a) \<longrightarrow>
          question (faqItems (faq_step s (QuestionClick a)) ! a) = Some (Some (js ''false''))
        \<and> answer (faqItems (faq_step s (QuestionClick a)) ! a) = Some (Some (js ''true''))
        \<and> expanded_count (faqItems (faq_step s (QuestionClick a))) = 0)"
proof -
  have c1: "expanded_count (faqItems s) \<le> 1 \<longrightarrow> expanded_count (faqItems (faq_run s evs)) \<le> 1"
    using faq_run_keeps_exclusive by blast
  have c2: "list_all complete_item (faqItems s) \<and> b < length (faqItems s) \<longrightarrow>
          expanded_count (faqItems (faq_run s (QuestionClick b # evs))) \<le> 1"
  proof (intro impI, elim conjE)
    assume h: "list_all complete_item (faqItems s)" "b < length (faqItems s)"
    have "expanded_count (faqItems (faq_step s (QuestionClick b))) \<le> 1"
      using h by (rule questionClick_exclusive)
    then have "expanded_count (faqItems (faq_run (faq_step s (QuestionClick b)) evs)) \<le> 1"
      by (rule faq_run_keeps_exclusive)
    then show "expanded_count (faqItems (faq_run s (QuestionClick b # evs))) \<le> 1"
      by (simp add: faq_run_def)
  qed
  have c3: "faq_step s (QuestionKey b (js ''Enter'')) = faq_step s (QuestionClick b)"
    and c4: "faq_step s (QuestionKey b (js '' '')) = faq_step s (QuestionClick b)"
    by (simp_all add: questionKeydown_def)
  have c5: "expanded_count (faqItems s) \<le> 1 \<and> list_all complete_item (faqItems s)
         \<and> a < length (faqItems s) \<and> b < length (faqItems s)
         \<and> a \<noteq> b \<and> expanded (faqItems s ! a) \<longrightarrow>
          question (faqItems (faq_step s (QuestionClick b)) ! a) = Some (Some (js ''false''))
        \<and> answer (faqItems (faq_step s (QuestionClick b)) ! a) = Some (Some (js ''true''))
        \<and> question (faqItems (faq_step s (QuestionClick b)) ! b) = Some (Some (js ''true''))
        \<and> answer (faqItems (faq_step s (QuestionClick b)) ! b) = Some (Some (js ''false''))
        \<and> map expanded (faqItems (faq_step s (QuestionClick b)))
            = map (\<lambda>j. j = b) [0..<length (faqItems s)]"
  proof (intro impI, elim conjE)
    assume one: "expanded_count (faqItems s) \<le> 1"
      and c: "list_all complete_item (faqItems s)" and a: "a < length (faqItems s)"
      and b: "b < length (faqItems s)" and ne: "a \<noteq> b" and ea: "expanded (faqItems s ! a)"
    have nb: "\<not> expanded (faqItems s ! b)"
      using one a b ne ea by (rule exclusive_other_collapsed)
    have at_a: "faqItems (faq_step s (QuestionClick b)) ! a =
            (faqItems s ! a)\<lparr>question := Some (Some (js ''false'')),
                             answer := Some (Some (js ''true''))\<rparr>"
      using questionClick_nth [OF c b a] ne by simp
    have at_b: "faqItems (faq_step s (QuestionClick b)) ! b =
            (faqItems s ! b)\<lparr>question := Some (Some (js ''true'')),
                             answer := Some (Some (js ''false''))\<rparr>"
      using questionClick_nth [OF c b b] nb by (simp add: bool_attr_def)
    have "map expanded (faqItems (faq_step s (QuestionClick b)))
            = map (\<lambda>j. j = b) [0..<length (faqItems s)]"
    proof (rule nth_equalityI)
      show "length (map expanded (faqItems (faq_step s (QuestionClick b))))
              = length (map (\<lambda>j. j = b) [0..<length (faqItems s)])"
        using questionClick_length [OF c b] by simp
    next
      fix j assume "j < length (map expanded (faqItems (faq_step s (QuestionClick b))))"
      then have j: "j < length (faqItems s)"
        using questionClick_length [OF c b] by simp
      then have j': "j < length (faqItems (faq_step s (QuestionClick b)))"
        using questionClick_length [OF c b] by simp
      have "expanded (faqItems (faq_step s (QuestionClick b)) ! j) = (j = b)"
      proof (cases "j = b")
        case True
        then show ?thesis using at_b by (simp add: expanded_def)
      next
        case False
        then show ?thesis using questionClick_nth [OF c b j] by (simp add: expanded_def)
      qed
      then show "map expanded (faqItems (faq_step s (QuestionClick b))) ! j
              = map (\<lambda>j. j = b) [0..<length (faqItems s)] ! j"
        using j j' by simp
    qed
    with at_a at_b show "question (faqItems (faq_step s (QuestionClick b)) ! a) = Some (Some (js ''false''))
        \<and> answer (faqItems (faq_step s (QuestionClick b)) ! a) = Some (Some (js ''true''))
        \<and> question (faqItems (faq_step s (QuestionClick b)) ! b) = Some (Some (js ''true''))
        \<and> answer (faqItems (faq_step s (QuestionClick b)) ! b) = Some (Some (js ''false''))
        \<and> map expanded (faqItems (faq_step s (QuestionClick b)))
            = map (\<lambda>j. j = b) [0..<length (faqItems s)]"
      by simp
  qed
  have c6: "list_all complete_item (faqItems s) \<and> a < length (faqItems s)
         \<and> expanded (faqItems s ! a) \<longrightarrow>
          question (faqItems (faq_step s (QuestionClick a)) ! a) = Some (Some (js ''false''))
        \<and> answer (faqItems (faq_step s (QuestionClick a)) ! a) = Some (Some (js ''true''))
        \<and> expanded_count (faqItems (faq_step s (QuestionClick a))) = 0"
  proof (intro impI, elim conjE)
    assume c: "list_all complete_item (faqItems s)" and a: "a < length (faqItems s)"
      and ea: "expanded (faqItems s ! a)"
    have at_a: "faqItems (faq_step s (QuestionClick a)) ! a =
            (faqItems s ! a)\<lparr>question := Some (Some (js ''false'')),
                             answer := Some (Some (js ''true''))\<rparr>"
      using questionClick_nth [OF c a a] ea by (simp add: bool_attr_def)
    have "\<not> expanded (faqItems (faq_step s (QuestionClick a)) ! j)"
      if "j < length (faqItems s)" for j
      using questionClick_nth [OF c a that] ea by (simp add: expanded_def bool_attr_def)
    then have "filter expanded (faqItems (faq_step s (QuestionClick a))) = []"
      using questionClick_length [OF c a] by (auto simp: filter_empty_conv in_set_conv_nth)
    with at_a show "question (faqItems (faq_step s (QuestionClick a)) ! a) = Some (Some (js ''false''))
        \<and> answer (faqItems (faq_step s (QuestionClick a)) ! a) = Some (Some (js ''true''))
        \<and> expanded_count (faqItems (faq_step s (QuestionClick a))) = 0"
      by (simp add: expanded_count_def)
  qed
  from c1 c2 c3 c4 c5 c6 show ?thesis by - (intro conjI; assumption)
qed

text \<open>
  C3. A click on question B while item A is expanded is to collapse A and expand exactly
  B. The script falls short of it on a page with a \<open>.faq-item\<close> that lacks its question:
  \<open>setupAccordions\<close> skips such an item when it attaches the handlers, but the loop of
  the click handler does not, and \<open>setAttribute\<close> on the missing element throws before
  the clicked item is toggled. A stays expanded and B collapsed.
\<close>

theorem questionClick_throws_on_incomplete_item:
  "map expanded (faqItems incomplete_questions) = [False, True, False]
   \<and> complete_item (faqItems incomplete_questions ! 2)
   \<and> questionClick 2 incomplete_questions = Thrown TypeError incomplete_questions
   \<and> map expanded (faqItems (faq_step incomplete_questions (QuestionClick 2)))
       = [False, True, False]"
  by (simp add: incomplete_questions_def faq_item_of_def questionClick_def state_of_def
      expanded_def complete_item_def bool_attr_def js_def)

section \<open>Properties of the email-capture form\<close>

text \<open>
  C5. A submission of the email-capture form whose email value fails \<open>isValidEmail\<close>
  returns without calling the stub \<open>submitEmail\<close>. The page is as before but for the
  inline error element, whose text is now the error message, and for the announcement
  (the text of the live region and the timer that clears it): the modal is still open,
  and the submit button is untouched.
\<close>

theorem invalid_email_not_submitted:
  assumes "emailInput s = Some email" and "\<not> isValidEmail email"
  shows "handleEmailSubmission s =
           Settled (Returned
             (s\<lparr>errorDiv :=
                  map_option (\<lambda>_. js ''Please enter a valid email address'') (errorDiv s),
                announcements :=
                  map_option (\<lambda>_. js ''Please enter a valid email address'') (announcements s),
                timers :=
                  timers s @ (if announcements s = None then [] else [(1000, ClearAnnouncement)])\<rparr>))
         \<and> (case handleEmailSubmission s of
              Settled (Returned s') \<Rightarrow>
                submitEmail_calls s' = submitEmail_calls s
                \<and> modal_aria_hidden s' = modal_aria_hidden s
                \<and> modal_display s' = modal_display s
                \<and> submitBtn s' = submitBtn s
                \<and> errorDiv s' =
                    map_option (\<lambda>_. js ''Please enter a valid email address'') (errorDiv s)
            | _ \<Rightarrow> False)"
proof -
  have r: "handleEmailSubmission s =
           Settled (Returned
             (s\<lparr>errorDiv :=
                  map_option (\<lambda>_. js ''Please enter a valid email address'') (errorDiv s),
                announcements :=
                  map_option (\<lambda>_. js ''Please enter a valid email address'') (announcements s),
                timers :=
                  timers s @ (if announcements s = None then [] else [(1000, ClearAnnouncement)])\<rparr>))"
    using assms
    by (cases "announcements s"; cases "errorDiv s")
       (simp_all add: handleEmailSubmission_def announce_def Let_def)
  show ?thesis
    unfolding r by simp
qed

theorem invalid_email_not_submitted_witness:
  "handleEmailSubmission open_modal =
     Settled (Returned
       (open_modal\<lparr>errorDiv := Some (js ''Please enter a valid email address''),
                   announcements := Some (js ''Please enter a valid email address''),
                   timers := [(1000, ClearAnnouncement)]\<rparr>))"
proof -
  have e: "emailInput open_modal = Some (js ''a@b'')"
    by (simp add: open_modal_def)
  have n: "\<not> isValidEmail (js ''a@b'')"
    by (simp add: email_eval)
  show ?thesis
    using invalid_email_not_submitted [OF e n] by (simp add: open_modal_def)
qed

section \<open>Properties of the contact form\<close>

lemma field_verdict_marks [simp]:
  "field_verdict (f\<lparr>aria_invalid := a, field_error := e\<rparr>) = field_verdict f"
  by (simp add: field_verdict_def)

lemma validateField_result:
  "fst (validateField i s) = fst (field_verdict (controls s ! i))"
  by (simp add: validateField_def Let_def)

lemma validateField_keeps:
  "contactBtn (snd (validateField i s)) = contactBtn s"
  "submitContactForm_calls (snd (validateField i s)) = submitContactForm_calls s"
  "announcements (snd (validateField i s)) = announcements s"
  "timers (snd (validateField i s)) = timers s"
  by (simp_all add: validateField_def Let_def split: option.splits)

lemma validateField_verdict:
  "field_verdict (controls (snd (validateField i s)) ! k) = field_verdict (controls s ! k)"
proof (cases "i < length (controls s)")
  case True
  then show ?thesis
    by (cases "k = i") (simp_all add: validateField_def Let_def split: option.splits)
next
  case False
  then show ?thesis
    by (simp add: validateField_def Let_def list_update_beyond split: option.splits)
qed

lemma validate_all_result:
  "fst (validate_all inputs allValid s)
     = (allValid \<and> list_all (\<lambda>i. fst (field_verdict (controls s ! i))) inputs)"
proof (induction inputs arbitrary: allValid s)
  case Nil
  then show ?case by simp
next
  case (Cons i inputs)
  have "list_all (\<lambda>k. fst (field_verdict (controls (snd (validateField i s)) ! k))) inputs
          = list_all (\<lambda>k. fst (field_verdict (controls s ! k))) inputs"
    by (simp add: validateField_verdict)
  then show ?case
    using Cons.IH by (auto simp: case_prod_beta validateField_result)
qed

lemma validate_all_keeps:
  "contactBtn (snd (validate_all inputs allValid s)) = contactBtn s
   \<and> submitContactForm_calls (snd (validate_all inputs allValid s)) = submitContactForm_calls s
   \<and> announcements (snd (validate_all inputs allValid s)) = announcements s
   \<and> timers (snd (validate_all inputs allValid s)) = timers s"
  by (induction inputs arbitrary: allValid s) (simp_all add: case_prod_beta validateField_keeps)

text \<open>
  Where one of the controls the handler collects (\<open>input[required]\<close>,
  \<open>textarea[required]\<close>) fails \<open>validateField\<close>, the submission returns without calling
  the stub, the correction request is announced, and the submit button is as before.
\<close>

lemma invalid_input_not_submitted:
  assumes "i \<in> set (required_inputs (controls s))"
    and "\<not> fst (field_verdict (controls s ! i))"
  shows "case handleContactSubmission s of
           Settled (Returned s') \<Rightarrow>
             submitContactForm_calls s' = submitContactForm_calls s
             \<and> contactBtn s' = contactBtn s
             \<and> announcements s' =
                 map_option (\<lambda>_. js ''Please correct the errors in the form'') (announcements s)
         | _ \<Rightarrow> False"
proof -
  let ?r = "validate_all (required_inputs (controls s)) True s"
  have "\<not> list_all (\<lambda>i. fst (field_verdict (controls s ! i))) (required_inputs (controls s))"
    using assms by (auto simp: list_all_iff)
  then have "\<not> fst ?r"
    by (simp add: validate_all_result)
  then have "handleContactSubmission s =
          Settled (Returned (announce (js ''Please correct the errors in the form'') (snd ?r)))"
    by (simp add: handleContactSubmission_def Let_def case_prod_beta)
  then show ?thesis
    using validate_all_keeps [of "required_inputs (controls s)" True s]
    by (cases "announcements s") (simp_all add: announce_def)
qed

text \<open>
  C6. A contact form with a required field left empty is not to be submitted. The script
  falls short of it: the handler collects \<open>input[required]\<close> and \<open>textarea[required]\<close>
  only. A required \<open>select\<close> with nothing chosen is a required field that is empty, and
  \<open>validateField\<close> rejects it, but the submission does not look at it: with the other
  fields valid, the button is disabled and relabelled and the stub \<open>submitContactForm\<close> is
  called, with no announcement.
\<close>

theorem empty_required_select_is_submitted:
  "required (controls inquiry_form ! 0) \<and> fvalue (controls inquiry_form ! 0) = []
   \<and> \<not> fst (field_verdict (controls inquiry_form ! 0))
   \<and> (case handleContactSubmission inquiry_form of
        Awaits originalText s' \<Rightarrow>
          submitContactForm_calls s' = [[(js ''topic'', []), (js ''email'', js ''a@b.co'')]]
          \<and> map_option disabled (contactBtn s') = Some True
          \<and> map_option textContent (contactBtn s') = Some (js ''Sending...'')
          \<and> announcements s' = Some []
      | Settled r \<Rightarrow> False)"
proof -
  have v: "\<not> fst (field_verdict (controls inquiry_form ! 0))"
    by (simp add: inquiry_form_def field_verdict_def trim_def js_def)
  have i: "required_inputs (controls inquiry_form) = [1]"
    by (simp add: inquiry_form_def required_inputs_def upt_rec)
  have e: "fst (field_verdict (controls inquiry_form ! 1))"
    by (simp add: inquiry_form_def field_verdict_def trim_def email_eval)
  let ?s1 = "inquiry_form\<lparr>controls := (controls inquiry_form)
             [1 := (controls inquiry_form ! 1)\<lparr>aria_invalid := bool_attr False, field_error := False\<rparr>]\<rparr>"
  have "validate_all [1] True inquiry_form = (True, ?s1)"
    using e by (simp add: validateField_def Let_def inquiry_form_def)
  then have va: "validate_all (required_inputs (controls inquiry_form)) True inquiry_form = (True, ?s1)"
    using i by simp
  have btn: "contactBtn ?s1 = Some \<lparr>disabled = False, textContent = js ''Send'', background = []\<rparr>"
    by (simp add: inquiry_form_def)
  have fd: "formData (controls ?s1) = [(js ''topic'', []), (js ''email'', js ''a@b.co'')]"
    by (simp add: formData_def inquiry_form_def js_def)
  have "handleContactSubmission inquiry_form =
      Awaits (js ''Send'')
        (submitContactForm [(js ''topic'', []), (js ''email'', js ''a@b.co'')]
           (?s1\<lparr>contactBtn := Some \<lparr>disabled = True, textContent = js ''Sending...'', background = []\<rparr>\<rparr>))"
    using btn fd by (simp add: handleContactSubmission_def Let_def va)
  then show ?thesis
    using v by (simp add: submitContactForm_def inquiry_form_def)
qed

end
